theory Spec2Isabelle
  imports Complex_Main "HOL-Library.AList" "HOL-Library.Multiset"
begin

section \<open>Exceptions\<close>

text \<open>
  The exceptions the modelled code raises or catches; all of them derive from Python's
  \<^verbatim>\<open>Exception\<close>. \<open>OtherException\<close> stands for any further exception of that kind; the
  text carried by \<open>BluRayError\<close> and \<open>DVDError\<close> is the fixed part of the message.
\<close>

datatype py_exn =
    RequestException
  | ValueError
  | KeyError
  | IndexError
  | OverflowError
  | OtherException
  | BluRayError string
  | DVDError string

section \<open>Python string helpers used by the rippers\<close>

text \<open>
  Strings are lists of characters. The helpers below follow the Python built-ins on the
  ASCII range, which is all that the file-name patterns and the MakeMKV robot protocol use.
\<close>

definition is_digit :: "char \<Rightarrow> bool" where
  "is_digit c = (c \<in> set ''0123456789'')"

definition digit_val :: "char \<Rightarrow> int" where
  "digit_val c = int (of_char c) - 48"

text \<open>\<^verbatim>\<open>int(s)\<close> for a string of decimal digits (what the group \<^verbatim>\<open>(\d+)\<close> captures).\<close>

definition int_of_digits :: "string \<Rightarrow> int" where
  "int_of_digits ds = fold (\<lambda>c acc. 10 * acc + digit_val c) ds 0"

definition digit_char :: "nat \<Rightarrow> char" where
  "digit_char d = ''0123456789'' ! d"

fun dec_digits :: "nat \<Rightarrow> string" where
  "dec_digits n = (if n < 10 then [digit_char n] else dec_digits (n div 10) @ [digit_char (n mod 10)])"

declare dec_digits.simps [simp del]

text \<open>\<^verbatim>\<open>str(n)\<close> and the format \<^verbatim>\<open>f"{n:02d}"\<close> (width 2, zero padded, sign counted).\<close>

definition str_int :: "int \<Rightarrow> string" where
  "str_int n = (if n < 0 then CHR ''-'' # dec_digits (nat (- n)) else dec_digits (nat n))"

definition fmt02d :: "int \<Rightarrow> string" where
  "fmt02d n = (if 0 \<le> n \<and> n < 10 then CHR ''0'' # dec_digits (nat n) else str_int n)"

definition lower_ascii :: "char \<Rightarrow> char" where
  "lower_ascii c =
     (case map_of (zip ''ABCDEFGHIJKLMNOPQRSTUVWXYZ'' ''abcdefghijklmnopqrstuvwxyz'') c of
        Some l \<Rightarrow> l
      | None \<Rightarrow> c)"

text \<open>\<^verbatim>\<open>s.startswith(pre)\<close>, \<^verbatim>\<open>sub in s\<close>, \<^verbatim>\<open>s.split(c)\<close> for a one-character
  separator (the result is never empty), \<^verbatim>\<open>sep.join(parts)\<close> and \<^verbatim>\<open>s.strip(c)\<close>.\<close>

definition startswith :: "string \<Rightarrow> string \<Rightarrow> bool" where
  "startswith s pre = (take (length pre) s = pre)"

fun contains :: "string \<Rightarrow> string \<Rightarrow> bool" where
  "contains sub [] = (sub = [])"
| "contains sub (c # cs) = (startswith (c # cs) sub \<or> contains sub cs)"

fun split_on :: "char \<Rightarrow> string \<Rightarrow> string list" where
  "split_on c [] = [[]]"
| "split_on c (x # xs) =
     (if x = c then [] # split_on c xs
      else (case split_on c xs of
              [] \<Rightarrow> [[x]]
            | p # ps \<Rightarrow> (x # p) # ps))"

fun join :: "string \<Rightarrow> string list \<Rightarrow> string" where
  "join sep [] = []"
| "join sep [p] = p"
| "join sep (p # q # ps) = p @ sep @ join sep (q # ps)"

definition strip_char :: "char \<Rightarrow> string \<Rightarrow> string" where
  "strip_char c s = rev (dropWhile (\<lambda>x. x = c) (rev (dropWhile (\<lambda>x. x = c) s)))"

text \<open>
  \<^verbatim>\<open>s.splitlines()\<close>: a line ends at a line feed, a carriage return (with the line feed
  that may follow it), a vertical tab, a form feed, a file, group or record separator or
  a next-line character; there is no empty last line.
\<close>

definition is_line_break :: "char \<Rightarrow> bool" where
  "is_line_break c =
     (c \<in> set [CHR 0x0A, CHR 0x0D, CHR 0x0B, CHR 0x0C, CHR 0x1C, CHR 0x1D, CHR 0x1E, CHR 0x85])"

fun splitlines_from :: "string \<Rightarrow> string \<Rightarrow> string list" where
  "splitlines_from cur [] = (if cur = [] then [] else [rev cur])"
| "splitlines_from cur [c] = (if is_line_break c then [rev cur] else [rev (c # cur)])"
| "splitlines_from cur (c # d # rest) =
     (if c = CHR 0x0D \<and> d = CHR 0x0A then rev cur # splitlines_from [] rest
      else if is_line_break c then rev cur # splitlines_from [] (d # rest)
      else splitlines_from (c # cur) (d # rest))"

definition splitlines :: "string \<Rightarrow> string list" where
  "splitlines s = splitlines_from [] s"

text \<open>
  \<^verbatim>\<open>int(s)\<close> for a string: surrounding white space is dropped, a sign may come first,
  and the digits may be grouped by single underscores. The result is \<open>None\<close> where
  Python raises \<^verbatim>\<open>ValueError\<close>.
\<close>

definition is_space :: "char \<Rightarrow> bool" where
  "is_space c =
     (c \<in> set [CHR '' '', CHR 0x09, CHR 0x0A, CHR 0x0B, CHR 0x0C, CHR 0x0D,
               CHR 0x1C, CHR 0x1D, CHR 0x1E, CHR 0x1F, CHR 0x85, CHR 0xA0])"

definition strip_space :: "string \<Rightarrow> string" where
  "strip_space s = rev (dropWhile is_space (rev (dropWhile is_space s)))"

fun grouped_digits :: "string \<Rightarrow> bool" where
  "grouped_digits [] = False"
| "grouped_digits [c] = is_digit c"
| "grouped_digits (c # d # rest) =
     (is_digit c \<and> (if d = CHR ''_'' then grouped_digits rest else grouped_digits (d # rest)))"

definition py_int :: "string \<Rightarrow> int option" where
  "py_int s =
     (let t = strip_space s;
          negative = (t \<noteq> [] \<and> hd t = CHR ''-'');
          body = (if t \<noteq> [] \<and> (hd t = CHR ''-'' \<or> hd t = CHR ''+'') then tl t else t)
      in if grouped_digits body
         then Some ((if negative then - 1 else 1) * int_of_digits (filter is_digit body))
         else None)"

section \<open>EpisodeSequencer: scanning a season directory\<close>

text \<open>
  A directory is the list of its entry names. \<^verbatim>\<open>output_dir.glob(f"S{season_num:02d}E*.mkv")\<close>
  keeps the names that start with the prefix and end with the suffix (the star matches any
  run of characters, possibly empty). pathlib matches case-sensitively on POSIX (the
  Blu-ray ripper) and case-insensitively on Windows (the DVD ripper): the flag
  \<open>nocase\<close> selects the second behaviour.
\<close>

definition glob_match :: "bool \<Rightarrow> string \<Rightarrow> string \<Rightarrow> string \<Rightarrow> bool" where
  "glob_match nocase pre suf name =
     (let f = (if nocase then map lower_ascii else id);
          n = f name; p = f pre; s = f suf
      in length p + length s \<le> length n \<and> take (length p) n = p
         \<and> drop (length n - length s) n = s)"

text \<open>
  \<^verbatim>\<open>re.search(rf"S{season_num:02d}E(\d+)\.mkv", file.name)\<close>: the leftmost position
  where the prefix, a non-empty greedy run of digits and the text \<^verbatim>\<open>.mkv\<close> follow one
  another; the result is the captured digit run. A shorter digit run can never match,
  because the character after it would be a digit and not the dot.
\<close>

definition match_at :: "string \<Rightarrow> string \<Rightarrow> string option" where
  "match_at pre s =
     (if take (length pre) s = pre then
        (let rest = drop (length pre) s; ds = takeWhile is_digit rest
         in if ds \<noteq> [] \<and> take 4 (dropWhile is_digit rest) = ''.mkv'' then Some ds else None)
      else None)"

fun re_search :: "string \<Rightarrow> string \<Rightarrow> string option" where
  "re_search pre [] = match_at pre []"
| "re_search pre (c # cs) =
     (case match_at pre (c # cs) of Some ds \<Rightarrow> Some ds | None \<Rightarrow> re_search pre cs)"

text \<open>The list \<^verbatim>\<open>existing\<close> built by the first loop of \<^verbatim>\<open>find_next_available_episode\<close>.\<close>

definition existing_episodes :: "bool \<Rightarrow> string list \<Rightarrow> int \<Rightarrow> int list" where
  "existing_episodes nocase files season_num =
     List.map_filter
       (\<lambda>name. map_option int_of_digits (re_search (''S'' @ fmt02d season_num @ ''E'') name))
       (filter (glob_match nocase (''S'' @ fmt02d season_num @ ''E'') ''.mkv'') files)"

text \<open>The loop \<^verbatim>\<open>for i in range(1, max(existing) + 2): if i not in existing: return i\<close>.\<close>

fun first_missing :: "int list \<Rightarrow> int list \<Rightarrow> int option" where
  "first_missing existing [] = None"
| "first_missing existing (i # rest) =
     (if i \<notin> set existing then Some i else first_missing existing rest)"

definition find_next_available_episode :: "bool \<Rightarrow> string list \<Rightarrow> int \<Rightarrow> int" where
  "find_next_available_episode nocase files season_num =
     (let existing = existing_episodes nocase files season_num
      in if existing = [] then 1
         else (case first_missing existing [1..Max (set existing) + 1] of
                 Some i \<Rightarrow> i
               | None \<Rightarrow> Max (set existing) + 1))"

section \<open>EpisodeSequencer: the next season/episode slot\<close>

text \<open>
  A path is the list of its components and the file system maps each directory to the
  names of its entries. Iterating \<^verbatim>\<open>Path.glob\<close> over a directory that does not exist
  yields nothing. \<^verbatim>\<open>mkdir(exist_ok=True)\<close> leaves an existing directory alone, needs
  the parent directory to exist, and fails when the name is taken by an entry that is not
  a directory.
\<close>

type_synonym path = "string list"

type_synonym filesystem = "path \<rightharpoonup> string list"

datatype os_error = FileNotFoundError | FileExistsError

definition parent :: "path \<Rightarrow> path" where
  "parent p = butlast p"

definition listdir :: "filesystem \<Rightarrow> path \<Rightarrow> string list" where
  "listdir fs p = (case fs p of None \<Rightarrow> [] | Some entries \<Rightarrow> entries)"

definition mkdir_exist_ok :: "filesystem \<Rightarrow> path \<Rightarrow> os_error + filesystem" where
  "mkdir_exist_ok fs p =
     (case fs p of
        Some entries \<Rightarrow> Inr fs
      | None \<Rightarrow>
          (case fs (parent p) of
             None \<Rightarrow> Inl FileNotFoundError
           | Some siblings \<Rightarrow>
               if p = [] \<or> last p \<in> set siblings then Inl FileExistsError
               else Inr (fs(parent p \<mapsto> siblings @ [last p], p \<mapsto> []))))"

text \<open>\<^verbatim>\<open>current_dir / f"S{current_season:02d}E{next_episode:02d}.mkv"\<close>\<close>

definition episode_file :: "path \<Rightarrow> int \<Rightarrow> int \<Rightarrow> path" where
  "episode_file current_dir current_season next_episode =
     current_dir @ [''S'' @ fmt02d current_season @ ''E'' @ fmt02d next_episode @ ''.mkv'']"

text \<open>
  \<^verbatim>\<open>get_next_season_episode\<close>. The body of its \<^verbatim>\<open>while True\<close> loop ends in an
  unconditional \<^verbatim>\<open>return\<close>, so the body runs exactly once: one scan, at most one move
  to the next season with a second scan, and the result. The function returns the slot
  together with the file system, which \<^verbatim>\<open>mkdir\<close> may have changed.
\<close>

definition get_next_season_episode ::
  "bool \<Rightarrow> filesystem \<Rightarrow> path \<Rightarrow> int \<Rightarrow> int \<Rightarrow> os_error + ((int \<times> int \<times> path) \<times> filesystem)" where
  "get_next_season_episode nocase fs output_dir season_num max_episodes =
     (let current_season = season_num;
          current_dir = output_dir;
          next_episode = find_next_available_episode nocase (listdir fs current_dir) current_season
      in if next_episode > max_episodes then
           (let current_season = current_season + 1;
                current_dir = parent output_dir @ [''Season '' @ str_int current_season]
            in case mkdir_exist_ok fs current_dir of
                 Inl e \<Rightarrow> Inl e
               | Inr fs' \<Rightarrow>
                   (let next_episode =
                          find_next_available_episode nocase (listdir fs' current_dir) current_season
                    in Inr ((current_season, next_episode,
                             episode_file current_dir current_season next_episode), fs')))
         else Inr ((current_season, next_episode,
                    episode_file current_dir current_season next_episode), fs))"

text \<open>Two show folders used as concrete inputs: season 1 full, and seasons 1 and 2 both full.\<close>

definition show_one_full_season :: filesystem where
  "show_one_full_season =
     [[''Show''] \<mapsto> [''Season 1''],
      [''Show'', ''Season 1''] \<mapsto> [''S01E01.mkv'', ''S01E02.mkv'']]"


section \<open>DurationClassifier\<close>

text \<open>
  A title catalog is a Python dictionary from title number to title information; it is
  modelled as the list of its items in insertion order, with pairwise distinct keys.
  Assigning \<^verbatim>\<open>d[k] = v\<close> is \<^const>\<open>AList.update\<close>: an existing key keeps its place,
  a new key goes to the end.

  The Blu-ray ripper stores the chapter count of a title, the DVD ripper the list of its
  chapters (number and duration of each).
\<close>

record title =
  number :: int
  duration :: int
  size_bytes :: int
  chapters :: int
  name :: string
  filename :: string

record dvd_title =
  dvd_duration :: int
  dvd_chapters :: "(int \<times> int) list"
  audio :: "string list"
  subtitles :: "string list"

text \<open>
  \<^verbatim>\<open>episode_ranges\<close> maps a range name to \<^verbatim>\<open>(min_sec, max_sec)\<close>. The bounds are the
  integer defaults or floats entered by the operator; Python compares an integer with a
  float by exact value, so a bound is modelled by the rational number it denotes.
\<close>

type_synonym ranges = "(string \<times> rat \<times> rat) list"

definition DEFAULT_EPISODE_RANGES :: ranges where
  "DEFAULT_EPISODE_RANGES =
     [(''half_with_intro'', 650, 705), (''half_no_intro'', 600, 649), (''full_episode'', 1260, 1440)]"

text \<open>The flag \<^verbatim>\<open>is_valid\<close>: the duration falls into one of the ranges.\<close>

definition is_valid :: "ranges \<Rightarrow> int \<Rightarrow> bool" where
  "is_valid episode_ranges d =
     list_ex (\<lambda>(range_name, min_sec, max_sec). min_sec \<le> of_int d \<and> of_int d \<le> max_sec)
       episode_ranges"

text \<open>
  First pass of \<^verbatim>\<open>filter_episodes\<close>: \<^verbatim>\<open>duration_groups\<close> maps each exact duration to
  the list of the valid titles that have it. \<open>add_to_group\<close> is
  \<^verbatim>\<open>if duration not in duration_groups: duration_groups[duration] = []\<close> followed by
  \<^verbatim>\<open>duration_groups[duration].append((num, info))\<close>.
\<close>

fun add_to_group :: "int \<Rightarrow> 'a \<Rightarrow> (int \<times> 'a list) list \<Rightarrow> (int \<times> 'a list) list" where
  "add_to_group d x [] = [(d, [x])]"
| "add_to_group d x ((d', g) # rest) =
     (if d' = d then (d', g @ [x]) # rest else (d', g) # add_to_group d x rest)"

definition group_by_duration ::
  "('i \<Rightarrow> int) \<Rightarrow> (int \<times> 'i) list \<Rightarrow> ranges \<Rightarrow> (int \<times> (int \<times> 'i) list) list" where
  "group_by_duration dur titles episode_ranges =
     fold (\<lambda>(num, info) duration_groups.
             if is_valid episode_ranges (dur info)
             then add_to_group (dur info) (num, info) duration_groups
             else duration_groups)
       titles []"

text \<open>
  The sampler \<^verbatim>\<open>sample_title(device, num, duration)\<close> rips a five-second sample and
  returns its size in bytes, or 0 when the sample could not be made. It is a parameter of
  the model: a function from title number and duration to the size. Every call is
  recorded in the list \<open>sampled\<close>, so that the order and the number of the calls can be
  stated.

  The loop over the sorted group keeps \<^verbatim>\<open>samples\<close> (sample size to the first title
  that had it) and \<^verbatim>\<open>unique_titles\<close>.
\<close>

fun sample_group ::
  "(int \<Rightarrow> int \<Rightarrow> int) \<Rightarrow> int \<Rightarrow> (int \<times> 'i) list \<Rightarrow>
     (int \<times> int) list \<times> int list \<times> int list \<Rightarrow> (int \<times> int) list \<times> int list \<times> int list" where
  "sample_group sample_title d [] st = st"
| "sample_group sample_title d ((num, info) # rest) (samples, unique_titles, sampled) =
     (let sample_size = sample_title num d
      in if sample_size > 0 \<and> map_of samples sample_size = None
         then sample_group sample_title d rest
                (AList.update sample_size num samples, List.insert num unique_titles,
                 sampled @ [num])
         else sample_group sample_title d rest (samples, unique_titles, sampled @ [num]))"

text \<open>
  \<^verbatim>\<open>sorted(group, key=..., reverse=True)\<close> is stable: titles with the same chapter count
  keep their order. The set \<^verbatim>\<open>unique_titles\<close> is kept as a list without repetitions;
  Python leaves the iteration order of a set open, and only the order of the items of the
  result depends on it.
\<close>

definition descending_chapters :: "('i \<Rightarrow> int) \<Rightarrow> (int \<times> 'i) list \<Rightarrow> (int \<times> 'i) list" where
  "descending_chapters nchap grp = sort_key (\<lambda>(num, info). - nchap info) grp"

definition add_unique ::
  "(int \<times> 'i) list \<Rightarrow> int \<Rightarrow> (int \<times> 'i) list \<Rightarrow> (int \<times> 'i) list" where
  "add_unique grp num episode_titles =
     (case find (\<lambda>(title_num, info). title_num = num) grp of
        Some (title_num, info) \<Rightarrow> AList.update num info episode_titles
      | None \<Rightarrow> episode_titles)"

definition analyze_group ::
  "('i \<Rightarrow> int) \<Rightarrow> (int \<Rightarrow> int \<Rightarrow> int) \<Rightarrow> int \<Rightarrow> (int \<times> 'i) list \<Rightarrow>
     (int \<times> 'i) list \<times> int list \<Rightarrow> (int \<times> 'i) list \<times> int list" where
  "analyze_group nchap sample_title d grp st =
     (case sample_group sample_title d (descending_chapters nchap grp) ([], [], snd st) of
        (samples, unique_titles, sampled) \<Rightarrow>
          (fold (add_unique grp) unique_titles (fst st), sampled))"

text \<open>
  Second pass: the groups in ascending order of duration; a group of two or more titles
  is sampled, a single title is added directly. A group is never empty
  (lemma \<open>group_by_duration_nonempty\<close>), so \<^verbatim>\<open>group[0]\<close> always exists.
\<close>

definition classify_group ::
  "('i \<Rightarrow> int) \<Rightarrow> (int \<Rightarrow> int \<Rightarrow> int) \<Rightarrow> int \<times> (int \<times> 'i) list \<Rightarrow>
     (int \<times> 'i) list \<times> int list \<Rightarrow> (int \<times> 'i) list \<times> int list" where
  "classify_group nchap sample_title dg st =
     (case dg of (d, grp) \<Rightarrow>
        if length grp \<ge> 2 then analyze_group nchap sample_title d grp st
        else (case grp of
                [] \<Rightarrow> st
              | (num, info) # _ \<Rightarrow> (AList.update num info (fst st), snd st)))"

text \<open>What one group contributes when it is classified on its own: the titles it adds to
  \<^verbatim>\<open>episode_titles\<close> and the titles it has sampled.\<close>

definition group_accepted ::
  "('i \<Rightarrow> int) \<Rightarrow> (int \<Rightarrow> int \<Rightarrow> int) \<Rightarrow> int \<times> (int \<times> 'i) list \<Rightarrow> (int \<times> 'i) list" where
  "group_accepted nchap sample_title dg = fst (classify_group nchap sample_title dg ([], []))"

definition group_sampled ::
  "('i \<Rightarrow> int) \<Rightarrow> (int \<Rightarrow> int \<Rightarrow> int) \<Rightarrow> int \<times> (int \<times> 'i) list \<Rightarrow> int list" where
  "group_sampled nchap sample_title dg = snd (classify_group nchap sample_title dg ([], []))"

text \<open>
  \<^verbatim>\<open>filter_episodes(titles, min_length, max_length, device, episode_ranges)\<close>. The
  arguments \<^verbatim>\<open>min_length\<close> and \<^verbatim>\<open>max_length\<close> are only logged and \<^verbatim>\<open>device\<close> is only
  handed to the sampler. \<open>filter_episodes_run\<close> returns \<^verbatim>\<open>episode_titles\<close> together
  with the titles sampled, in the order of the calls.
\<close>

definition filter_episodes_run ::
  "('i \<Rightarrow> int) \<Rightarrow> ('i \<Rightarrow> int) \<Rightarrow> (int \<Rightarrow> int \<Rightarrow> int) \<Rightarrow> (int \<times> 'i) list \<Rightarrow> ranges \<Rightarrow>
     (int \<times> 'i) list \<times> int list" where
  "filter_episodes_run dur nchap sample_title titles episode_ranges =
     fold (classify_group nchap sample_title)
       (sort_key fst (group_by_duration dur titles episode_ranges)) ([], [])"

definition filter_episodes ::
  "('i \<Rightarrow> int) \<Rightarrow> ('i \<Rightarrow> int) \<Rightarrow> (int \<Rightarrow> int \<Rightarrow> int) \<Rightarrow> (int \<times> 'i) list \<Rightarrow> ranges \<Rightarrow>
     (int \<times> 'i) list" where
  "filter_episodes dur nchap sample_title titles episode_ranges =
     fst (filter_episodes_run dur nchap sample_title titles episode_ranges)"

definition samples_taken ::
  "('i \<Rightarrow> int) \<Rightarrow> ('i \<Rightarrow> int) \<Rightarrow> (int \<Rightarrow> int \<Rightarrow> int) \<Rightarrow> (int \<times> 'i) list \<Rightarrow> ranges \<Rightarrow> int list" where
  "samples_taken dur nchap sample_title titles episode_ranges =
     snd (filter_episodes_run dur nchap sample_title titles episode_ranges)"

text \<open>The two rippers: the Blu-ray one sorts by the stored chapter count, the DVD one by
  the length of the chapter list.\<close>

definition filter_episodes_bluray ::
  "(int \<Rightarrow> int \<Rightarrow> int) \<Rightarrow> (int \<times> title) list \<Rightarrow> ranges \<Rightarrow> (int \<times> title) list" where
  "filter_episodes_bluray = filter_episodes duration chapters"

definition filter_episodes_dvd ::
  "(int \<Rightarrow> int \<Rightarrow> int) \<Rightarrow> (int \<times> dvd_title) list \<Rightarrow> ranges \<Rightarrow> (int \<times> dvd_title) list" where
  "filter_episodes_dvd = filter_episodes dvd_duration (\<lambda>info. int (length (dvd_chapters info)))"

text \<open>Concrete catalogs: an item of a Blu-ray catalog with the given title number,
  duration in seconds and chapter count, and the catalog of the specification's example,
  \<^verbatim>\<open>{1: 660s, 2: 1300s, 3: 630s}\<close>, with the band \<^verbatim>\<open>(600, 1440)\<close>.\<close>

definition catalog_item :: "int \<Rightarrow> int \<Rightarrow> int \<Rightarrow> int \<times> title" where
  "catalog_item n d c =
     (n, \<lparr>number = n, duration = d, size_bytes = 0, chapters = c, name = [], filename = []\<rparr>)"

definition distinct_durations_catalog :: "(int \<times> title) list" where
  "distinct_durations_catalog = [catalog_item 1 660 3, catalog_item 2 1300 8, catalog_item 3 630 3]"

definition one_band :: ranges where
  "one_band = [(''episode'', 600, 1440)]"


section \<open>Filtering titles by runtime with a margin\<close>

text \<open>
  \<^verbatim>\<open>get_title_info\<close> gives each title its duration in seconds (the key
  \<^verbatim>\<open>'duration'\<close>, here \<open>title_duration\<close>) and in minutes.
  \<^verbatim>\<open>filter_titles_by_duration\<close> computes the two bounds in Python floating-point
  arithmetic. The model leaves the number type open: it only needs the operations the
  source applies (numerals, \<open>+\<close>, \<open>-\<close>, \<open>*\<close>, \<open>/\<close> and \<open>\<le>\<close>) and assumes no law about
  them, so what is proved holds for floating-point numbers as well as for the rationals.
\<close>

record 'a duration_info =
  title_duration :: 'a
  duration_mins :: 'a

definition filter_titles_by_duration ::
  "(int \<times> ('a::{numeral,minus,times,inverse,ord}) duration_info) list \<Rightarrow> 'a \<Rightarrow> 'a \<Rightarrow> 'a \<Rightarrow>
     (int \<times> 'a duration_info) list \<times> (int \<times> 'a duration_info) list" where
  "filter_titles_by_duration title_info min_runtime max_runtime margin_percent =
     (let margin = margin_percent / 100;
          min_with_margin = min_runtime * (1 - margin);
          max_with_margin = max_runtime * (1 + margin)
      in fold (\<lambda>(title_num, info) (matching_titles, non_matching_titles).
                 if min_with_margin \<le> title_duration info \<and> title_duration info \<le> max_with_margin
                 then (AList.update title_num info matching_titles, non_matching_titles)
                 else (matching_titles, AList.update title_num info non_matching_titles))
           title_info ([], []))"

text \<open>A catalog with one title inside and one outside the window of 1800 to 3600 seconds
  widened by 20 percent.\<close>

definition two_durations :: "(int \<times> rat duration_info) list" where
  "two_durations =
     [(1, \<lparr>title_duration = 1500, duration_mins = 25\<rparr>), (2, \<lparr>title_duration = 5000, duration_mins = 250 / 3\<rparr>)]"

section \<open>RuntimeRangeResolver: the TVDB lookups\<close>

text \<open>
  The metadata service is outside the program. A request
  (\<^verbatim>\<open>requests.get\<close>, \<^verbatim>\<open>raise_for_status\<close>, \<^verbatim>\<open>json\<close>) either raises a
  \<^verbatim>\<open>requests.exceptions.RequestException\<close> (no connection, timeout, HTTP error status),
  raises some other exception (the body is not the expected JSON), or delivers a document.
  The lookups take the service as functions from the request to its outcome.

  A field that the code tests for truth and then converts with \<^verbatim>\<open>int(...)\<close> is
  \<open>Empty\<close> (absent, \<^verbatim>\<open>None\<close>, zero or the empty string), \<open>Value n\<close> (a true value that
  \<^verbatim>\<open>int\<close> converts to \<open>n\<close>) or \<open>Unparsable\<close> (a true value that \<^verbatim>\<open>int\<close> rejects).
\<close>

datatype 'a reply = Request_fails | Other_failure | Reply 'a

datatype field = Empty | Value int | Unparsable

record tvdb_show =
  show_id :: "string option"
  show_title :: "string option"

record episode =
  seasonNumber :: "int option"
  runtime :: field
  episode_number :: field

subsection \<open>Blu-ray ripper: \<^verbatim>\<open>get_tvdb_episode_info\<close>\<close>

text \<open>The loop that collects \<^verbatim>\<open>season_runtimes\<close>; \<^verbatim>\<open>int(episode['runtime'])\<close> may raise.\<close>

fun season_runtimes :: "int \<Rightarrow> episode list \<Rightarrow> py_exn + int list" where
  "season_runtimes season_num [] = Inr []"
| "season_runtimes season_num (e # es) =
     (if seasonNumber e = Some season_num \<and> runtime e \<noteq> Empty then
        (case runtime e of
           Value n \<Rightarrow>
             (case season_runtimes season_num es of Inl x \<Rightarrow> Inl x | Inr rs \<Rightarrow> Inr (n # rs))
         | _ \<Rightarrow> Inl ValueError)
      else season_runtimes season_num es)"

text \<open>The body of the \<^verbatim>\<open>try\<close> block: its value, or the exception that leaves it.\<close>

definition get_tvdb_episode_info_try ::
  "(string \<Rightarrow> tvdb_show list reply) \<Rightarrow> (string \<Rightarrow> episode list reply) \<Rightarrow> string \<Rightarrow> int \<Rightarrow>
     py_exn + (int \<times> int)" where
  "get_tvdb_episode_info_try search episodes show_name season_num =
     (case search show_name of
        Request_fails \<Rightarrow> Inl RequestException
      | Other_failure \<Rightarrow> Inl OtherException
      | Reply shows \<Rightarrow>
          (case shows of
             [] \<Rightarrow> Inl (BluRayError ''Show not found on TVDB'')
           | first_show # _ \<Rightarrow>
               (case show_id first_show of
                  None \<Rightarrow> Inl KeyError
                | Some sid \<Rightarrow>
                    (case episodes sid of
                       Request_fails \<Rightarrow> Inl RequestException
                     | Other_failure \<Rightarrow> Inl OtherException
                     | Reply eps \<Rightarrow>
                         (case season_runtimes season_num eps of
                            Inl x \<Rightarrow> Inl x
                          | Inr rs \<Rightarrow>
                              if rs = [] then Inr (30 * 60, 60 * 60)
                              else Inr (Min (set rs) * 60, Max (set rs) * 60))))))"

text \<open>
  The two handlers, \<^verbatim>\<open>except requests.exceptions.RequestException\<close> and
  \<^verbatim>\<open>except Exception\<close>, both return the default range. The result is a sum so that
  "no exception leaves the function" can be stated.
\<close>

definition get_tvdb_episode_info ::
  "(string \<Rightarrow> tvdb_show list reply) \<Rightarrow> (string \<Rightarrow> episode list reply) \<Rightarrow> string \<Rightarrow> int \<Rightarrow>
     py_exn + (int \<times> int)" where
  "get_tvdb_episode_info search episodes show_name season_num =
     (case get_tvdb_episode_info_try search episodes show_name season_num of
        Inr runtimes \<Rightarrow> Inr runtimes
      | Inl RequestException \<Rightarrow> Inr (30 * 60, 60 * 60)
      | Inl _ \<Rightarrow> Inr (30 * 60, 60 * 60))"

subsection \<open>DVD ripper: \<^verbatim>\<open>get_tvdb_info\<close>\<close>

record tvdb_info =
  info_show_name :: string
  info_season :: int
  episode_count :: int
  min_length :: int
  max_length :: int

text \<open>\<^verbatim>\<open>get_tvdb_token\<close>: the login request delivers the token or the function raises
  \<^verbatim>\<open>DVDError\<close>.\<close>

definition get_tvdb_token :: "string option reply \<Rightarrow> py_exn + string" where
  "get_tvdb_token login =
     (case login of
        Reply (Some token) \<Rightarrow> Inr token
      | _ \<Rightarrow> Inl (DVDError ''Failed to get TVDB token''))"

text \<open>
  The loop over the episodes collects \<^verbatim>\<open>episode_numbers\<close> and \<^verbatim>\<open>runtimes\<close>.
  A number that \<^verbatim>\<open>int\<close> rejects raises; a runtime that it rejects is skipped, and only
  positive runtimes are kept.
\<close>

fun collect_episodes :: "episode list \<Rightarrow> py_exn + (int list \<times> int list)" where
  "collect_episodes [] = Inr ([], [])"
| "collect_episodes (e # es) =
     (if episode_number e = Unparsable then Inl ValueError
      else (case collect_episodes es of
              Inl x \<Rightarrow> Inl x
            | Inr (episode_numbers, runtimes) \<Rightarrow>
                Inr ((case episode_number e of Value n \<Rightarrow> n # episode_numbers | _ \<Rightarrow> episode_numbers),
                     (case runtime e of
                        Value r \<Rightarrow> if r > 0 then r # runtimes else runtimes
                      | _ \<Rightarrow> runtimes))))"

definition get_tvdb_info_try ::
  "(string \<Rightarrow> tvdb_show list reply) \<Rightarrow> (string \<Rightarrow> int \<Rightarrow> episode list reply) \<Rightarrow> string \<Rightarrow> int \<Rightarrow>
     py_exn + tvdb_info" where
  "get_tvdb_info_try search episodes show_name season_num =
     (case search show_name of
        Request_fails \<Rightarrow> Inl RequestException
      | Other_failure \<Rightarrow> Inl OtherException
      | Reply shows \<Rightarrow>
          (case shows of
             [] \<Rightarrow> Inl (DVDError ''Show not found'')
           | first_show # _ \<Rightarrow>
               (case show_id first_show of
                  None \<Rightarrow> Inl KeyError
                | Some sid \<Rightarrow>
                    (case episodes sid season_num of
                       Request_fails \<Rightarrow> Inl RequestException
                     | Other_failure \<Rightarrow> Inl OtherException
                     | Reply eps \<Rightarrow>
                         if eps = [] then Inl (DVDError ''No episodes found for season'')
                         else
                           (case collect_episodes eps of
                              Inl x \<Rightarrow> Inl x
                            | Inr (episode_numbers, found_runtimes) \<Rightarrow>
                                (let runtimes = (if found_runtimes = [] then [30] else found_runtimes)
                                 in Inr \<lparr>info_show_name =
                                            (case show_title first_show of
                                               Some t \<Rightarrow> t
                                             | None \<Rightarrow> show_name),
                                          info_season = season_num,
                                          episode_count =
                                            (if episode_numbers = [] then 0
                                             else Max (set episode_numbers)),
                                          min_length = Min (set runtimes),
                                          max_length = Max (set runtimes)\<rparr>))))))"

text \<open>
  The token is fetched before the \<^verbatim>\<open>try\<close> block. Both handlers raise
  \<^verbatim>\<open>DVDError\<close>: nothing is absorbed.
\<close>

definition get_tvdb_info ::
  "string option reply \<Rightarrow> (string \<Rightarrow> tvdb_show list reply) \<Rightarrow>
     (string \<Rightarrow> int \<Rightarrow> episode list reply) \<Rightarrow> string \<Rightarrow> int \<Rightarrow> py_exn + tvdb_info" where
  "get_tvdb_info login search episodes show_name season_num =
     (case get_tvdb_token login of
        Inl x \<Rightarrow> Inl x
      | Inr token \<Rightarrow>
          (case get_tvdb_info_try search episodes show_name season_num of
             Inr info \<Rightarrow> Inr info
           | Inl RequestException \<Rightarrow> Inl (DVDError ''TVDB API request failed'')
           | Inl _ \<Rightarrow> Inl (DVDError ''TVDB API error'')))"

text \<open>A service that cannot be reached, and one that knows the show but no runtimes.\<close>

definition unreachable :: "string \<Rightarrow> tvdb_show list reply" where
  "unreachable query = Request_fails"

definition one_show :: "string \<Rightarrow> tvdb_show list reply" where
  "one_show query = Reply [\<lparr>show_id = Some ''series-101'', show_title = Some ''Show''\<rparr>]"

definition episodes_without_runtime :: "episode list" where
  "episodes_without_runtime =
     [\<lparr>seasonNumber = Some 1, runtime = Empty, episode_number = Value 1\<rparr>,
      \<lparr>seasonNumber = Some 1, runtime = Empty, episode_number = Value 2\<rparr>]"

section \<open>TitleCatalog: parsing the MakeMKV robot output\<close>

text \<open>
  \<^verbatim>\<open>parse_titles\<close> of the Blu-ray ripper. Each \<^verbatim>\<open>TINFO:id,code,flags,value\<close> line
  sets one attribute of the title \<^verbatim>\<open>id\<close>; a title is created with default attributes
  when its first line is seen. Conversions that fail raise \<^verbatim>\<open>ValueError\<close>, which
  leaves the function.

  The size attribute is \<^verbatim>\<open>int(float(value.split()[0]) * 1024**3)\<close>, a floating-point
  computation: it is the parameter \<open>gigabytes\<close> of the model, from the attribute text to
  the number of bytes or to the exception raised.
\<close>

definition new_title :: "int \<Rightarrow> title" where
  "new_title title_id =
     \<lparr>number = title_id, duration = 0, size_bytes = 0, chapters = 0, name = [], filename = []\<rparr>"

text \<open>\<^verbatim>\<open>titles[title_id][key] = ...\<close> for a title that is present.\<close>

definition set_attribute :: "int \<Rightarrow> (title \<Rightarrow> title) \<Rightarrow> (int \<times> title) list \<Rightarrow> (int \<times> title) list" where
  "set_attribute title_id f titles =
     map (\<lambda>(k, v). if k = title_id then (k, f v) else (k, v)) titles"

text \<open>\<^verbatim>\<open>int(parts[0].split(':')[1])\<close>\<close>

definition id_after_colon :: "string \<Rightarrow> py_exn + int" where
  "id_after_colon s =
     (case split_on CHR '':'' s of
        _ # second # _ \<Rightarrow> (case py_int second of None \<Rightarrow> Inl ValueError | Some n \<Rightarrow> Inr n)
      | _ \<Rightarrow> Inl IndexError)"

text \<open>\<^verbatim>\<open>h, m, s = map(int, value.split(':'))\<close> and \<^verbatim>\<open>h * 3600 + m * 60 + s\<close>\<close>

definition hms_seconds :: "string \<Rightarrow> py_exn + int" where
  "hms_seconds v =
     (case map py_int (split_on CHR '':'' v) of
        [Some h, Some m, Some s] \<Rightarrow> Inr (h * 3600 + m * 60 + s)
      | _ \<Rightarrow> Inl ValueError)"

definition tinfo_line ::
  "(string \<Rightarrow> py_exn + int) \<Rightarrow> string \<Rightarrow> (int \<times> title) list \<Rightarrow> py_exn + (int \<times> title) list" where
  "tinfo_line gigabytes line titles =
     (let parts = split_on CHR '','' line
      in if length parts \<ge> 4 then
           (case id_after_colon (parts ! 0) of
              Inl x \<Rightarrow> Inl x
            | Inr title_id \<Rightarrow>
                (let code = parts ! 1;
                     v = strip_char CHR 0x22 (join '','' (drop 3 parts));
                     titles = (if title_id \<in> fst ` set titles then titles
                               else titles @ [(title_id, new_title title_id)])
                 in if code = ''2'' then Inr (set_attribute title_id (\<lambda>t. t\<lparr>name := v\<rparr>) titles)
                    else if code = ''8'' then
                      (case py_int v of
                         None \<Rightarrow> Inl ValueError
                       | Some c \<Rightarrow> Inr (set_attribute title_id (\<lambda>t. t\<lparr>chapters := c\<rparr>) titles))
                    else if code = ''9'' then
                      (case hms_seconds v of
                         Inl x \<Rightarrow> Inl x
                       | Inr d \<Rightarrow> Inr (set_attribute title_id (\<lambda>t. t\<lparr>duration := d\<rparr>) titles))
                    else if code = ''10'' then
                      (if contains ''GB'' v then
                         (case gigabytes v of
                            Inl x \<Rightarrow> Inl x
                          | Inr b \<Rightarrow> Inr (set_attribute title_id (\<lambda>t. t\<lparr>size_bytes := b\<rparr>) titles))
                       else Inr titles)
                    else if code = ''27'' then
                      Inr (set_attribute title_id (\<lambda>t. t\<lparr>filename := v\<rparr>) titles)
                    else Inr titles))
         else Inr titles)"

text \<open>A \<^verbatim>\<open>SINFO\<close> line only converts its title and stream numbers.\<close>

definition sinfo_line :: "string \<Rightarrow> py_exn + unit" where
  "sinfo_line line =
     (let parts = split_on CHR '','' line
      in if length parts \<ge> 4 then
           (case id_after_colon (parts ! 0) of
              Inl x \<Rightarrow> Inl x
            | Inr title_id \<Rightarrow>
                (case py_int (parts ! 1) of None \<Rightarrow> Inl ValueError | Some stream_id \<Rightarrow> Inr ()))
         else Inr ())"

fun parse_lines ::
  "(string \<Rightarrow> py_exn + int) \<Rightarrow> string list \<Rightarrow> (int \<times> title) list \<Rightarrow> py_exn + (int \<times> title) list" where
  "parse_lines gigabytes [] titles = Inr titles"
| "parse_lines gigabytes (line # rest) titles =
     (if startswith line ''TCOUNT:'' then
        (case id_after_colon line of
           Inl x \<Rightarrow> Inl x
         | Inr total_titles \<Rightarrow> parse_lines gigabytes rest titles)
      else if startswith line ''TINFO:'' then
        (case tinfo_line gigabytes line titles of
           Inl x \<Rightarrow> Inl x
         | Inr titles' \<Rightarrow> parse_lines gigabytes rest titles')
      else if startswith line ''SINFO:'' then
        (case sinfo_line line of
           Inl x \<Rightarrow> Inl x
         | Inr _ \<Rightarrow> parse_lines gigabytes rest titles)
      else parse_lines gigabytes rest titles)"

text \<open>The loop, then the filter that keeps the titles of at least two minutes. An empty
  result is returned like any other (a warning is logged).\<close>

definition parse_titles ::
  "(string \<Rightarrow> py_exn + int) \<Rightarrow> string \<Rightarrow> py_exn + (int \<times> title) list" where
  "parse_titles gigabytes output =
     (case parse_lines gigabytes (splitlines output) [] of
        Inl x \<Rightarrow> Inl x
      | Inr titles \<Rightarrow> Inr (filter (\<lambda>(k, v). duration v \<ge> 120) titles))"

text \<open>
  The scan step of \<^verbatim>\<open>main\<close>: \<^verbatim>\<open>makemkvcon -r info\<close> has run with the given return
  code and standard output; the titles are parsed and an empty catalog is refused.
\<close>

definition main_scan ::
  "(string \<Rightarrow> py_exn + int) \<Rightarrow> int \<Rightarrow> string \<Rightarrow> py_exn + (int \<times> title) list" where
  "main_scan gigabytes returncode stdout =
     (if returncode \<noteq> 0 then Inl (BluRayError ''Failed to get disc info'')
      else (case parse_titles gigabytes stdout of
              Inl x \<Rightarrow> Inl x
            | Inr titles \<Rightarrow>
                if titles = [] then Inl (BluRayError ''No valid titles found on disc'')
                else Inr titles))"

text \<open>A size conversion for the examples (no example has a size attribute), and two
  robot outputs: a disc with one title of 22 minutes and one of 1 minute, and a disc
  whose only title lasts 1 minute.\<close>

definition no_sizes :: "string \<Rightarrow> py_exn + int" where
  "no_sizes v = Inl ValueError"

definition robot_two_titles :: string where
  "robot_two_titles =
     join [CHR 0x0A]
       [''TCOUNT:2'',
        ''TINFO:0,2,0,'' @ [CHR 0x22] @ ''Episode'' @ [CHR 0x22],
        ''TINFO:0,8,0,'' @ [CHR 0x22] @ ''6'' @ [CHR 0x22],
        ''TINFO:0,9,0,'' @ [CHR 0x22] @ ''0:22:00'' @ [CHR 0x22],
        ''TINFO:1,9,0,'' @ [CHR 0x22] @ ''0:01:00'' @ [CHR 0x22]]"

definition robot_short_title :: string where
  "robot_short_title = ''TINFO:0,9,0,'' @ [CHR 0x22] @ ''0:01:00'' @ [CHR 0x22]"

section \<open>TitleCatalog of the DVD ripper: scanning with HandBrake\<close>

text \<open>
  The regular expressions of \<^verbatim>\<open>scan_disc\<close> are sequences of literal text, \<^verbatim>\<open>(\d+)\<close>
  and \<^verbatim>\<open>(\d{2})\<close>. In each of them a digit run is followed by a literal that starts
  with a character that is no digit, so the greedy run is the only possible match.
  \<open>re_search_pieces\<close> is \<^verbatim>\<open>re.search\<close>: the captured groups of the leftmost match.
\<close>

datatype piece = Lit string | Digits | Two_digits

fun match_here :: "piece list \<Rightarrow> string \<Rightarrow> string list option" where
  "match_here [] s = Some []"
| "match_here (Lit l # ps) s =
     (if startswith s l then match_here ps (drop (length l) s) else None)"
| "match_here (Digits # ps) s =
     (if takeWhile is_digit s = [] then None
      else map_option ((#) (takeWhile is_digit s)) (match_here ps (dropWhile is_digit s)))"
| "match_here (Two_digits # ps) s =
     (case s of
        a # b # rest \<Rightarrow>
          if is_digit a \<and> is_digit b then map_option ((#) [a, b]) (match_here ps rest) else None
      | _ \<Rightarrow> None)"

fun re_search_pieces :: "piece list \<Rightarrow> string \<Rightarrow> string list option" where
  "re_search_pieces ps [] = match_here ps []"
| "re_search_pieces ps (c # cs) =
     (case match_here ps (c # cs) of
        Some groups \<Rightarrow> Some groups
      | None \<Rightarrow> re_search_pieces ps cs)"

datatype scan_section = Chapters | Audio | Subtitles

record scan_state =
  titles_found :: "(int \<times> dvd_title) list"
  current_title :: "int option"
  current_section :: "scan_section option"

definition empty_dvd_title :: dvd_title where
  "empty_dvd_title = \<lparr>dvd_duration = 0, dvd_chapters = [], audio = [], subtitles = []\<rparr>"

definition update_title :: "int \<Rightarrow> (dvd_title \<Rightarrow> dvd_title) \<Rightarrow> (int \<times> dvd_title) list \<Rightarrow> (int \<times> dvd_title) list" where
  "update_title num f titles = map (\<lambda>(k, v). if k = num then (k, f v) else (k, v)) titles"

definition hms :: "string \<Rightarrow> string \<Rightarrow> string \<Rightarrow> int" where
  "hms h m s = int_of_digits h * 3600 + int_of_digits m * 60 + int_of_digits s"

text \<open>One line of the scan output, in the order of the tests of the source. The test
  \<^verbatim>\<open>if not current_title\<close> also skips the lines of a title numbered 0.\<close>

definition scan_line :: "string \<Rightarrow> scan_state \<Rightarrow> scan_state" where
  "scan_line raw st =
     (let line = strip_space raw
      in case (if startswith line ''+ title''
               then re_search_pieces [Lit ''+ title '', Digits, Lit '':''] line else None) of
           Some groups \<Rightarrow>
             st\<lparr>titles_found :=
                  AList.update (int_of_digits (hd groups)) empty_dvd_title (titles_found st),
                current_title := Some (int_of_digits (hd groups)),
                current_section := None\<rparr>
         | None \<Rightarrow>
             (case current_title st of
                None \<Rightarrow> st
              | Some num \<Rightarrow>
                  if num = 0 then st
                  else if startswith line ''+ chapters:'' then st\<lparr>current_section := Some Chapters\<rparr>
                  else if startswith line ''+ audio tracks:'' then st\<lparr>current_section := Some Audio\<rparr>
                  else if startswith line ''+ subtitle tracks:''
                    then st\<lparr>current_section := Some Subtitles\<rparr>
                  else if startswith line ''+ duration:'' then
                    (case re_search_pieces
                            [Lit ''duration: '', Two_digits, Lit '':'', Two_digits, Lit '':'', Two_digits]
                            line of
                       Some [h, m, s] \<Rightarrow>
                         st\<lparr>titles_found :=
                              update_title num (\<lambda>t. t\<lparr>dvd_duration := hms h m s\<rparr>) (titles_found st)\<rparr>
                     | _ \<Rightarrow> st)
                  else if current_section st = Some Chapters \<and> startswith line ''+ '' then
                    (case re_search_pieces
                            [Lit ''+ '', Digits, Lit '': duration '', Two_digits, Lit '':'',
                             Two_digits, Lit '':'', Two_digits]
                            line of
                       Some [n, h, m, s] \<Rightarrow>
                         if hms h m s > 0 then
                           st\<lparr>titles_found :=
                                update_title num
                                  (\<lambda>t. t\<lparr>dvd_chapters := dvd_chapters t @ [(int_of_digits n, hms h m s)]\<rparr>)
                                  (titles_found st)\<rparr>
                         else st
                     | _ \<Rightarrow> st)
                  else st))"

text \<open>
  The filter of \<^verbatim>\<open>scan_disc\<close>: a title is kept when its duration is at least a quarter
  of a minute and it has a chapter longer than 15 seconds; its chapter list is cut down
  to these chapters. \<^verbatim>\<open>duration / 60 >= 0.25\<close> is a floating-point test on an integer
  duration; 0.25 and 15 / 60 are the same float and the division is monotone, so the
  test is the one on rationals.
\<close>

definition scan_disc_filter :: "(int \<times> dvd_title) list \<Rightarrow> (int \<times> dvd_title) list" where
  "scan_disc_filter titles =
     fold (\<lambda>(num, info) filtered_titles.
             let duration_min = (of_int (dvd_duration info) :: rat) / 60;
                 valid_chapters = filter (\<lambda>c. snd c > 15) (dvd_chapters info)
             in if duration_min \<ge> 1 / 4 \<and> valid_chapters \<noteq> []
                then AList.update num (info\<lparr>dvd_chapters := valid_chapters\<rparr>) filtered_titles
                else filtered_titles)
       titles []"

text \<open>
  What one run of \<^verbatim>\<open>HandBrakeCLI --scan\<close> does: it exceeds the timeout, fails in
  another way, or ends with some output. \<^verbatim>\<open>scan_disc\<close> makes one run per attempt; the
  list holds the runs of the \<^verbatim>\<open>max_retries\<close> attempts. The dictionary \<^verbatim>\<open>titles\<close>
  lives across the attempts. The \<^verbatim>\<open>DVDError\<close> raised when no title is valid is
  caught by the handler for \<^verbatim>\<open>Exception\<close> of the same attempt.
\<close>

datatype scan_run = Timeout | Failure | Output string

fun scan_attempts :: "scan_run list \<Rightarrow> (int \<times> dvd_title) list \<Rightarrow> py_exn + (int \<times> dvd_title) list" where
  "scan_attempts [] titles = Inr []"
| "scan_attempts (Timeout # later) titles =
     (if later \<noteq> [] then scan_attempts later titles
      else Inl (DVDError ''Scan timed out after all attempts - disc may be damaged''))"
| "scan_attempts (Failure # later) titles =
     (if later \<noteq> [] then scan_attempts later titles
      else Inl (DVDError ''Could not scan disc after all attempts''))"
| "scan_attempts (Output scan_output # later) titles =
     (let st = fold scan_line (splitlines scan_output)
                 \<lparr>titles_found = titles, current_title = None, current_section = None\<rparr>;
          filtered_titles = scan_disc_filter (titles_found st)
      in if filtered_titles \<noteq> [] then Inr filtered_titles
         else if later \<noteq> [] then scan_attempts later (titles_found st)
         else Inl (DVDError ''Could not scan disc after all attempts''))"

definition scan_disc :: "scan_run list \<Rightarrow> py_exn + (int \<times> dvd_title) list" where
  "scan_disc runs = scan_attempts runs []"

text \<open>The scan output of a disc whose only title lasts one minute.\<close>

definition handbrake_short_title :: string where
  "handbrake_short_title =
     join [CHR 0x0A]
       [''+ title 1:'',
        ''  + duration: 00:01:00'',
        ''  + chapters:'',
        ''    + 1: duration 00:01:00'']"

section \<open>RipOrchestrator: when a rip counts as finished\<close>

subsection \<open>DVD ripper: \<^verbatim>\<open>rip_title\<close>\<close>

text \<open>
  The retry loop of \<^verbatim>\<open>rip_title\<close> (the part of the function after the encoder
  command has been put together). It makes up to three attempts. What the encoder does
  in one attempt is outside the program: a DVD read error appears in its output, the
  progress stalls (and if the encoder is not killed for it, the attempt goes on), the
  wait for its exit times out, it exits with a return code leaving an output file of some
  size or none, or starting it fails with an exception that is no \<^verbatim>\<open>DVDError\<close>.
\<close>

datatype rip_attempt =
    DVD_read_error
  | Progress_stalled rip_attempt
  | Wait_timeout
  | Exited int "int option"
  | Crashed

text \<open>The \<^verbatim>\<open>try\<close> block of one attempt; \<open>is_last\<close> is \<^verbatim>\<open>attempt = max_retries - 1\<close>. A
  stalled encoder is killed, and \<^verbatim>\<open>DVDError\<close> raised, only when another attempt is left.\<close>

fun attempt_result :: "rip_attempt \<Rightarrow> bool \<Rightarrow> py_exn + bool" where
  "attempt_result DVD_read_error is_last = Inl (DVDError ''DVD read error'')"
| "attempt_result (Progress_stalled then_what) is_last =
     (if \<not> is_last then Inl (DVDError ''Progress stalled (will retry)'')
      else attempt_result then_what is_last)"
| "attempt_result Wait_timeout is_last = Inl (DVDError ''Rip timed out'')"
| "attempt_result (Exited returncode output_file) is_last =
     (if returncode = 0 then
        (case output_file of
           Some file_size \<Rightarrow>
             if file_size > 1000000 then Inr True
             else Inl (DVDError ''Output file missing or too small'')
         | None \<Rightarrow> Inl (DVDError ''Output file missing or too small''))
      else Inl (DVDError ''HandBrake failed''))"
| "attempt_result Crashed is_last = Inl OtherException"

text \<open>The exit that an attempt reaches when the encoder is never killed for a stall.\<close>

fun final_exit :: "rip_attempt \<Rightarrow> rip_attempt" where
  "final_exit (Progress_stalled a) = final_exit a"
| "final_exit a = a"

text \<open>The loop over the attempts with its handler \<^verbatim>\<open>except DVDError\<close>: retry while an
  attempt is left, otherwise raise again. After the loop comes \<^verbatim>\<open>return False\<close>.\<close>

fun rip_attempts :: "rip_attempt list \<Rightarrow> py_exn + bool" where
  "rip_attempts [] = Inr False"
| "rip_attempts (a # later) =
     (case attempt_result a (later = []) of
        Inr finished \<Rightarrow> Inr finished
      | Inl (DVDError msg) \<Rightarrow> if later \<noteq> [] then rip_attempts later else Inl (DVDError msg)
      | Inl other \<Rightarrow> Inl other)"

definition rip_title :: "rip_attempt \<Rightarrow> rip_attempt \<Rightarrow> rip_attempt \<Rightarrow> py_exn + bool" where
  "rip_title first second third = rip_attempts [first, second, third]"

subsection \<open>Blu-ray ripper: the rip step of \<^verbatim>\<open>process_tv_show\<close>\<close>

text \<open>
  A file of the target directory with its modification time and size.
  \<^verbatim>\<open>find_latest_mkv\<close> picks, among the \<^verbatim>\<open>.mkv\<close> files modified after the start of the
  rip, the one modified last (the first of them in directory order when several are).
\<close>

record file_stat =
  file_name :: string
  st_mtime :: rat
  st_size :: int

fun latest :: "file_stat list \<Rightarrow> file_stat option" where
  "latest [] = None"
| "latest (f # fs) =
     (case latest fs of
        None \<Rightarrow> Some f
      | Some g \<Rightarrow> if st_mtime g > st_mtime f then Some g else Some f)"

definition find_latest_mkv :: "file_stat list \<Rightarrow> rat \<Rightarrow> file_stat option" where
  "find_latest_mkv directory created_after =
     latest (filter (\<lambda>f. st_mtime f > created_after)
               (filter (\<lambda>f. glob_match False [] ''.mkv'' (file_name f)) directory))"

text \<open>
  \<^verbatim>\<open>verify_ripped_file\<close>: ffmpeg decodes the file without error and the file is larger
  than 1000000 bytes; an exception gives \<^verbatim>\<open>False\<close>. The argument is the return code of
  ffmpeg, or \<open>None\<close> when running it raises. No function of the ripper calls it.
\<close>

definition verify_ripped_file :: "int option \<Rightarrow> int \<Rightarrow> bool" where
  "verify_ripped_file ffmpeg_returncode file_size =
     (case ffmpeg_returncode of
        None \<Rightarrow> False
      | Some returncode \<Rightarrow> returncode = 0 \<and> file_size > 1000000)"

text \<open>
  What \<^verbatim>\<open>process_tv_show\<close> reports for one title: \<^verbatim>\<open>rip_title\<close> has started MakeMKV
  or not, MakeMKV has exited with a return code, the directory holds the given files and
  renaming the newest one works or not. The return code is never looked at.
\<close>

datatype rip_report =
    Successfully_ripped
  | Failed_to_rename
  | Failed_to_find_ripped_file
  | Failed_to_start_rip

definition rip_episode :: "bool \<Rightarrow> int \<Rightarrow> file_stat list \<Rightarrow> rat \<Rightarrow> bool \<Rightarrow> rip_report" where
  "rip_episode started returncode directory start_time rename_works =
     (if started then
        (case find_latest_mkv directory start_time of
           Some new_file \<Rightarrow> if rename_works then Successfully_ripped else Failed_to_rename
         | None \<Rightarrow> Failed_to_find_ripped_file)
      else Failed_to_start_rip)"

text \<open>MakeMKV failed and left an empty file behind.\<close>

definition failed_rip_directory :: "file_stat list" where
  "failed_rip_directory = [\<lparr>file_name = ''title_t00.mkv'', st_mtime = 1010, st_size = 0\<rparr>]"

section \<open>Verification: EpisodeSequencer\<close>

subsection \<open>The next free episode number\<close>









lemma find_next_available_episode_empty:
  "find_next_available_episode nocase [] season_num = 1"
  by (simp add: find_next_available_episode_def existing_episodes_def List.map_filter_simps)


lemma glob_match_canonical: "glob_match nocase pre suf (pre @ mid @ suf)"
  by (cases nocase) (simp_all add: glob_match_def Let_def)

lemma not_digit_dot: "\<not> is_digit CHR ''.''"
  by (simp add: is_digit_def)

lemma match_at_canonical:
  assumes "ds \<noteq> []" and "\<forall>c \<in> set ds. is_digit c"
  shows "match_at pre (pre @ ds @ ''.mkv'') = Some ds"
proof -
  from assms(2) have t: "takeWhile is_digit (ds @ ''.mkv'') = ds"
    by (simp add: takeWhile_append2 not_digit_dot)
  from assms(2) have d: "dropWhile is_digit (ds @ ''.mkv'') = ''.mkv''"
    by (simp add: dropWhile_append2 not_digit_dot)
  from assms(1) t d show ?thesis by (simp add: match_at_def Let_def)
qed

lemma re_search_canonical:
  assumes "ds \<noteq> []" and "\<forall>c \<in> set ds. is_digit c"
  shows "re_search pre (pre @ ds @ ''.mkv'') = Some ds"
proof (cases "pre @ ds @ ''.mkv''")
  case Nil
  with assms(1) show ?thesis by simp
next
  case (Cons c cs)
  from match_at_canonical [OF assms, of pre] Cons show ?thesis by simp
qed

lemma map_filter_member: "x \<in> set xs \<Longrightarrow> f x = Some y \<Longrightarrow> y \<in> set (List.map_filter f xs)"
  by (induction xs) (auto simp: List.map_filter_simps split: option.splits)

text \<open>Every entry named \<^verbatim>\<open>S<season:02d>E<digits>.mkv\<close> counts as an existing episode.\<close>

lemma existing_episodes_canonical:
  assumes "ds \<noteq> []" and "\<forall>c \<in> set ds. is_digit c"
    and "''S'' @ fmt02d season_num @ ''E'' @ ds @ ''.mkv'' \<in> set files"
  shows "int_of_digits ds \<in> set (existing_episodes nocase files season_num)"
proof -
  let ?pre = "''S'' @ fmt02d season_num @ ''E''"
  let ?name = "?pre @ ds @ ''.mkv''"
  have n: "?name \<in> set files" using assms(3) by simp
  have g: "glob_match nocase ?pre ''.mkv'' ?name" by (rule glob_match_canonical)
  have r: "re_search ?pre ?name = Some ds" by (rule re_search_canonical [OF assms(1,2)])
  from n g have "?name \<in> set (filter (glob_match nocase ?pre ''.mkv'') files)" by simp
  moreover from r have "map_option int_of_digits (re_search ?pre ?name) = Some (int_of_digits ds)"
    by simp
  ultimately show ?thesis
    unfolding existing_episodes_def by (rule map_filter_member)
qed



subsection \<open>Season roll-over\<close>

lemma str_int_2: "str_int 2 = ''2''"
  by code_simp

lemma parent_season_1: "parent [''Show'', ''Season 1''] = [''Show'']"
  by (simp add: parent_def)

lemma next_after_two: "find_next_available_episode nocase [''S01E01.mkv'', ''S01E02.mkv''] 1 = 3"
proof (cases nocase)
  case True
  have "find_next_available_episode True [''S01E01.mkv'', ''S01E02.mkv''] 1 = 3" by code_simp
  with True show ?thesis by simp
next
  case False
  have "find_next_available_episode False [''S01E01.mkv'', ''S01E02.mkv''] 1 = 3" by code_simp
  with False show ?thesis by simp
qed


lemma episode_file_2_1: "episode_file [''Show'', ''Season 2''] 2 1 = [''Show'', ''Season 2'', ''S02E01.mkv'']"
  by code_simp


text \<open>
  The roll-over of the specification's example: season 1 holds its two episodes, so the
  slot is episode 1 of season 2, and \<^verbatim>\<open>Season 2\<close> has been created.
\<close>

lemma get_next_season_episode_rollover:
  "get_next_season_episode nocase show_one_full_season [''Show'', ''Season 1''] 1 2 =
     Inr ((2, 1, [''Show'', ''Season 2'', ''S02E01.mkv'']),
          show_one_full_season([''Show''] \<mapsto> [''Season 1'', ''Season 2''],
                               [''Show'', ''Season 2''] \<mapsto> []))"
proof -
  have l: "listdir show_one_full_season [''Show'', ''Season 1''] = [''S01E01.mkv'', ''S01E02.mkv'']"
    by (simp add: listdir_def show_one_full_season_def)
  have m: "mkdir_exist_ok show_one_full_season [''Show'', ''Season 2''] =
      Inr (show_one_full_season([''Show''] \<mapsto> [''Season 1'', ''Season 2''],
                                [''Show'', ''Season 2''] \<mapsto> []))"
    by (simp add: mkdir_exist_ok_def show_one_full_season_def parent_def)
  have l2: "listdir (show_one_full_season([''Show''] \<mapsto> [''Season 1'', ''Season 2''],
                                [''Show'', ''Season 2''] \<mapsto> [])) [''Show'', ''Season 2''] = []"
    by (simp add: listdir_def)
  show ?thesis
    by (simp add: get_next_season_episode_def Let_def l next_after_two str_int_2 parent_season_1 m l2
        find_next_available_episode_empty episode_file_2_1)
qed

text \<open>A slot in the current season never exceeds the limit; a rolled-over slot is the
  first free episode of the next season, whatever the limit.\<close>

lemma get_next_season_episode_cases:
  assumes "get_next_season_episode nocase fs output_dir season_num max_episodes =
             Inr ((s, e, p), fs')"
  shows "(s = season_num \<and> e \<le> max_episodes \<and> fs' = fs
            \<and> e = find_next_available_episode nocase (listdir fs output_dir) season_num)
         \<or> (s = season_num + 1
            \<and> max_episodes < find_next_available_episode nocase (listdir fs output_dir) season_num
            \<and> mkdir_exist_ok fs (parent output_dir @ [''Season '' @ str_int (season_num + 1)]) = Inr fs'
            \<and> e = find_next_available_episode nocase
                    (listdir fs' (parent output_dir @ [''Season '' @ str_int (season_num + 1)]))
                    (season_num + 1))"
  using assms
  by (auto simp: get_next_season_episode_def Let_def split: if_splits sum.splits)


section \<open>Verification: DurationClassifier\<close>

subsection \<open>Accepted titles come from the catalog and lie in a band\<close>

lemma add_to_group_mem:
  "(d', g') \<in> set (add_to_group d x G) \<Longrightarrow> y \<in> set g' \<Longrightarrow>
     (d' = d \<and> y = x) \<or> (\<exists>g. (d', g) \<in> set G \<and> y \<in> set g)"
proof (induction G)
  case Nil
  then show ?case by simp
next
  case (Cons p G)
  obtain d0 g0 where p: "p = (d0, g0)" by (cases p)
  show ?case
  proof (cases "d0 = d")
    case True
    with Cons.prems p show ?thesis by auto
  next
    case False
    with Cons.prems p have "(d', g') = (d0, g0) \<or> (d', g') \<in> set (add_to_group d x G)" by simp
    then show ?thesis
    proof
      assume "(d', g') = (d0, g0)"
      with Cons.prems p show ?thesis by auto
    next
      assume "(d', g') \<in> set (add_to_group d x G)"
      from Cons.IH [OF this Cons.prems(2)] p show ?thesis by auto
    qed
  qed
qed

lemma fold_group_mem:
  "(d, g) \<in> set (fold (\<lambda>(num, info) duration_groups.
             if is_valid R (dur info)
             then add_to_group (dur info) (num, info) duration_groups
             else duration_groups) titles G) \<Longrightarrow> (n, i) \<in> set g \<Longrightarrow>
     ((n, i) \<in> set titles \<and> dur i = d \<and> is_valid R d)
     \<or> (\<exists>g0. (d, g0) \<in> set G \<and> (n, i) \<in> set g0)"
proof (induction titles arbitrary: G)
  case Nil
  then show ?case by auto
next
  case (Cons t titles)
  obtain m j where t: "t = (m, j)" by (cases t)
  show ?case
  proof (cases "is_valid R (dur j)")
    case False
    with Cons.prems t Cons.IH [of G] show ?thesis by auto
  next
    case True
    with Cons.prems t
    have "((n, i) \<in> set titles \<and> dur i = d \<and> is_valid R d)
       \<or> (\<exists>g0. (d, g0) \<in> set (add_to_group (dur j) (m, j) G) \<and> (n, i) \<in> set g0)"
      using Cons.IH [of "add_to_group (dur j) (m, j) G"] by auto
    then show ?thesis
    proof
      assume "(n, i) \<in> set titles \<and> dur i = d \<and> is_valid R d"
      then show ?thesis by auto
    next
      assume "\<exists>g0. (d, g0) \<in> set (add_to_group (dur j) (m, j) G) \<and> (n, i) \<in> set g0"
      then obtain g0 where "(d, g0) \<in> set (add_to_group (dur j) (m, j) G)" "(n, i) \<in> set g0"
        by blast
      from add_to_group_mem [OF this] True t show ?thesis by auto
    qed
  qed
qed

lemma group_by_duration_mem:
  "(d, g) \<in> set (group_by_duration dur titles R) \<Longrightarrow> (n, i) \<in> set g \<Longrightarrow>
     (n, i) \<in> set titles \<and> dur i = d \<and> is_valid R d"
  unfolding group_by_duration_def by (drule fold_group_mem) auto

lemma update_subset: "set (AList.update k v al) \<subseteq> insert (k, v) (set al)"
  by (induction al) auto

lemma find_SomeD: "find P xs = Some x \<Longrightarrow> P x \<and> x \<in> set xs"
  by (induction xs) (auto split: if_splits)

lemma add_unique_subset: "set (add_unique g n et) \<subseteq> set et \<union> set g"
proof (cases "find (\<lambda>(title_num, info). title_num = n) g")
  case None
  then show ?thesis by (simp add: add_unique_def)
next
  case (Some p)
  then obtain tn info where p: "p = (tn, info)" by (cases p)
  from find_SomeD [OF Some] p have "tn = n" "(tn, info) \<in> set g"
    by auto
  with Some p update_subset [of n info et] show ?thesis
    by (auto simp: add_unique_def)
qed

lemma fold_add_unique_subset: "set (fold (add_unique g) u et) \<subseteq> set et \<union> set g"
proof (induction u arbitrary: et)
  case Nil
  show ?case by simp
next
  case (Cons n u)
  from Cons.IH [of "add_unique g n et"] add_unique_subset [of g n et]
  show ?case by auto
qed

lemma classify_group_subset:
  "set (fst (classify_group nchap s (d, g) st)) \<subseteq> set (fst st) \<union> set g"
proof (cases "2 \<le> length g")
  case True
  obtain sm u lg where sg: "sample_group s d (descending_chapters nchap g) ([], [], snd st) = (sm, u, lg)"
    by (cases "sample_group s d (descending_chapters nchap g) ([], [], snd st)") auto
  with True have "fst (classify_group nchap s (d, g) st) = fold (add_unique g) u (fst st)"
    by (simp add: classify_group_def analyze_group_def)
  then show ?thesis using fold_add_unique_subset [of g u "fst st"] by simp
next
  case False
  show ?thesis
  proof (cases g)
    case Nil
    then show ?thesis by (simp add: classify_group_def)
  next
    case (Cons p rest)
    obtain n i where p: "p = (n, i)" by (cases p)
    with Cons False have "fst (classify_group nchap s (d, g) st) = AList.update n i (fst st)"
      by (simp add: classify_group_def)
    with update_subset [of n i "fst st"] Cons p show ?thesis by auto
  qed
qed

lemma fold_classify_subset:
  "set (fst (fold (classify_group nchap s) L st)) \<subseteq> set (fst st) \<union> (\<Union>dg \<in> set L. set (snd dg))"
proof (induction L arbitrary: st)
  case Nil
  show ?case by simp
next
  case (Cons dg L)
  obtain d g where dg: "dg = (d, g)" by (cases dg)
  from Cons.IH [of "classify_group nchap s dg st"] classify_group_subset [of nchap s d g st] dg
  show ?case by auto
qed

lemma filter_episodes_accepts:
  assumes "(n, i) \<in> set (filter_episodes dur nchap s titles R)"
  shows "(n, i) \<in> set titles \<and> is_valid R (dur i)"
proof -
  from assms fold_classify_subset [of nchap s "sort_key fst (group_by_duration dur titles R)" "([], [])"]
  obtain d g where "(d, g) \<in> set (group_by_duration dur titles R)" "(n, i) \<in> set g"
    by (auto simp: filter_episodes_def filter_episodes_run_def)
  from group_by_duration_mem [OF this] show ?thesis by auto
qed

text \<open>
  Claim C8. Every title accepted by \<^verbatim>\<open>filter_episodes\<close> is a title of the input catalog
  whose duration lies inside at least one of the duration bands: a title outside every
  band is never accepted. The function has no force-include override. The statement holds
  for both rippers, which differ only in how the chapter count is read.
\<close>

theorem filter_episodes_within_band:
  assumes "(n, i) \<in> set (filter_episodes dur nchap sample_title titles episode_ranges)"
  shows "(\<exists>(range_name, min_sec, max_sec) \<in> set episode_ranges.
            min_sec \<le> of_int (dur i) \<and> of_int (dur i) \<le> max_sec)
         \<and> (n, i) \<in> set titles"
  using filter_episodes_accepts [OF assms]
  by (auto simp: is_valid_def list_ex_iff)

theorem filter_episodes_within_band_witness:
  "catalog_item 2 1300 8
     \<in> set (filter_episodes duration chapters (\<lambda>num d. 0) distinct_durations_catalog one_band)
   \<and> (\<exists>(range_name, min_sec, max_sec) \<in> set one_band.
          min_sec \<le> of_int (duration (snd (catalog_item 2 1300 8)))
          \<and> of_int (duration (snd (catalog_item 2 1300 8))) \<le> max_sec)"
proof -
  have h: "catalog_item 2 1300 8
     \<in> set (filter_episodes duration chapters (\<lambda>num d. 0) distinct_durations_catalog one_band)"
    by code_simp
  from filter_episodes_within_band
         [of "fst (catalog_item 2 1300 8)" "snd (catalog_item 2 1300 8)" duration chapters
             "\<lambda>num d. 0" distinct_durations_catalog one_band] h
  show ?thesis by simp
qed

subsection \<open>The duration groups\<close>

lemma map_of_add_to_group:
  "map_of (add_to_group d x G) d' =
     (if d' = d then Some ((case map_of G d of None \<Rightarrow> [] | Some g \<Rightarrow> g) @ [x]) else map_of G d')"
  by (induction G) auto

lemma keys_add_to_group:
  "map fst (add_to_group d x G) = (if d \<in> fst ` set G then map fst G else map fst G @ [d])"
proof (induction G)
  case Nil
  show ?case by simp
next
  case (Cons p G)
  obtain a b where p: "p = (a, b)" by (cases p)
  show ?case
  proof (cases "a = d")
    case True
    with p show ?thesis by simp
  next
    case False
    with p Cons show ?thesis by (cases "d \<in> fst ` set G") auto
  qed
qed

lemma distinct_add_to_group:
  "distinct (map fst G) \<Longrightarrow> distinct (map fst (add_to_group d x G))"
  by (simp add: keys_add_to_group)

lemma mset_add_to_group:
  "mset (concat (map snd (add_to_group d x G))) = mset (concat (map snd G)) + {#x#}"
  by (induction G) auto

lemma group_by_duration_snoc:
  "group_by_duration dur (xs @ [(n, i)]) R =
     (if is_valid R (dur i) then add_to_group (dur i) (n, i) (group_by_duration dur xs R)
      else group_by_duration dur xs R)"
  by (simp add: group_by_duration_def)

lemma group_by_duration_distinct: "distinct (map fst (group_by_duration dur titles R))"
proof (induction titles rule: rev_induct)
  case Nil
  show ?case by (simp add: group_by_duration_def)
next
  case (snoc t titles)
  obtain n i where "t = (n, i)" by (cases t)
  with snoc show ?case by (simp add: group_by_duration_snoc distinct_add_to_group)
qed

lemma group_by_duration_mset:
  "mset (concat (map snd (group_by_duration dur titles R))) =
     mset (filter (\<lambda>(n, i). is_valid R (dur i)) titles)"
proof (induction titles rule: rev_induct)
  case Nil
  show ?case by (simp add: group_by_duration_def)
next
  case (snoc t titles)
  obtain n i where "t = (n, i)" by (cases t)
  with snoc show ?case by (simp add: group_by_duration_snoc mset_add_to_group)
qed

lemma group_by_duration_map_of:
  "map_of (group_by_duration dur titles R) d =
     (if filter (\<lambda>(n, i). is_valid R (dur i) \<and> dur i = d) titles = [] then None
      else Some (filter (\<lambda>(n, i). is_valid R (dur i) \<and> dur i = d) titles))"
proof (induction titles rule: rev_induct)
  case Nil
  show ?case by (simp add: group_by_duration_def)
next
  case (snoc t titles)
  obtain n i where t: "t = (n, i)" by (cases t)
  show ?case
  proof (cases "is_valid R (dur i)")
    case False
    with snoc t show ?thesis by (simp add: group_by_duration_snoc)
  next
    case True
    show ?thesis
    proof (cases "d = dur i")
      case eq: True
      with snoc t True show ?thesis
        by (simp add: group_by_duration_snoc map_of_add_to_group)
    next
      case neq: False
      with snoc t True show ?thesis
        by (simp add: group_by_duration_snoc map_of_add_to_group)
    qed
  qed
qed

lemma group_by_duration_groups:
  "(d, g) \<in> set (group_by_duration dur titles R) \<longleftrightarrow>
     g \<noteq> [] \<and> g = filter (\<lambda>(n, i). is_valid R (dur i) \<and> dur i = d) titles"
proof -
  have "(d, g) \<in> set (group_by_duration dur titles R)
          \<longleftrightarrow> map_of (group_by_duration dur titles R) d = Some g"
    using group_by_duration_distinct [of dur titles R] by simp
  also have "\<dots> \<longleftrightarrow> g \<noteq> [] \<and> g = filter (\<lambda>(n, i). is_valid R (dur i) \<and> dur i = d) titles"
  proof (cases "filter (\<lambda>(n, i). is_valid R (dur i) \<and> dur i = d) titles = []")
    case True
    then have "map_of (group_by_duration dur titles R) d = None"
      by (simp only: group_by_duration_map_of refl if_True)
    with True show ?thesis by auto
  next
    case False
    then have "map_of (group_by_duration dur titles R) d =
        Some (filter (\<lambda>(n, i). is_valid R (dur i) \<and> dur i = d) titles)"
      by (simp only: group_by_duration_map_of if_False)
    with False show ?thesis by auto
  qed
  finally show ?thesis .
qed

lemma group_by_duration_nonempty:
  "(d, g) \<in> set (group_by_duration dur titles R) \<Longrightarrow> g \<noteq> []"
  using group_by_duration_groups [of d g dur titles R] by blast

lemma mset_concat_perm:
  "mset L = mset L' \<Longrightarrow> mset (concat (map f L)) = mset (concat (map f L'))"
proof -
  have *: "mset (concat (map f xs)) = (\<Sum>x \<in># mset xs. mset (f x))" for xs
    by (induction xs) auto
  assume "mset L = mset L'"
  then show ?thesis by (simp add: *)
qed

lemma sorted_groups_mset:
  "mset (concat (map snd (sort_key fst (group_by_duration dur titles R)))) =
     mset (filter (\<lambda>(n, i). is_valid R (dur i)) titles)"
  using mset_concat_perm [of "sort_key fst (group_by_duration dur titles R)"
      "group_by_duration dur titles R" snd]
  by (simp add: group_by_duration_mset)

lemma sorted_groups_distinct_nums:
  assumes "distinct (map fst titles)"
  shows "distinct (map fst (concat (map snd (sort_key fst (group_by_duration dur titles R)))))"
proof -
  have "mset (concat (map snd (sort_key fst (group_by_duration dur titles R)))) =
        mset (filter (\<lambda>(n, i). is_valid R (dur i)) titles)"
    by (rule sorted_groups_mset)
  then have eq: "mset (map fst (concat (map snd (sort_key fst (group_by_duration dur titles R))))) =
        mset (map fst (filter (\<lambda>(n, i). is_valid R (dur i)) titles))"
    by (simp only: mset_map)
  have "distinct (map fst (filter (\<lambda>(n, i). is_valid R (dur i)) titles))"
    using assms by (rule distinct_map_filter)
  with mset_eq_imp_distinct_iff [OF eq] show ?thesis by blast
qed

subsection \<open>Sampling one group\<close>

lemma update_fresh: "k \<notin> fst ` set al \<Longrightarrow> AList.update k v al = al @ [(k, v)]"
  by (induction al) auto

lemma add_unique_keys: "fst ` set (add_unique g n []) \<subseteq> {n}"
  by (auto simp: add_unique_def split: option.splits)

lemma add_unique_fresh:
  "n \<notin> fst ` set et \<Longrightarrow> add_unique g n et = et @ add_unique g n []"
  by (auto simp: add_unique_def update_fresh split: option.splits)

lemma fold_add_unique_append:
  "distinct u \<Longrightarrow> set u \<inter> fst ` set et = {} \<Longrightarrow>
     fold (add_unique g) u et = et @ fold (add_unique g) u []"
proof (induction u arbitrary: et)
  case Nil
  show ?case by simp
next
  case (Cons n u)
  let ?a = "add_unique g n []"
  from Cons.prems have fresh: "n \<notin> fst ` set et" by auto
  have ka: "fst ` set ?a \<subseteq> {n}" by (rule add_unique_keys)
  from Cons.prems ka have d1: "set u \<inter> fst ` set (et @ ?a) = {}" by auto
  from Cons.prems ka have d2: "set u \<inter> fst ` set ?a = {}" by auto
  from Cons.prems have du: "distinct u" by simp
  have "fold (add_unique g) (n # u) et = fold (add_unique g) u (et @ ?a)"
    using add_unique_fresh [OF fresh] by simp
  also have "\<dots> = (et @ ?a) @ fold (add_unique g) u []"
    by (rule Cons.IH [OF du d1])
  also have "\<dots> = et @ fold (add_unique g) u ?a"
    using Cons.IH [OF du d2] by simp
  finally show ?case by simp
qed

lemma sample_group_sampled:
  "snd (snd (sample_group s d xs (sm, u, lg))) = lg @ map fst xs"
proof (induction xs arbitrary: sm u lg)
  case Nil
  show ?case by simp
next
  case (Cons x xs)
  obtain n i where "x = (n, i)" by (cases x)
  with Cons show ?case by (simp add: Let_def)
qed

lemma sample_group_indep:
  "fst (sample_group s d xs (sm, u, lg)) = fst (sample_group s d xs (sm, u, []))
   \<and> fst (snd (sample_group s d xs (sm, u, lg))) = fst (snd (sample_group s d xs (sm, u, [])))"
proof (induction xs arbitrary: sm u lg)
  case Nil
  show ?case by simp
next
  case (Cons x xs)
  obtain n i where x: "x = (n, i)" by (cases x)
  show ?case
  proof (cases "s n d > 0 \<and> map_of sm (s n d) = None")
    case True
    with x Cons.IH [of "AList.update (s n d) n sm" "List.insert n u" "lg @ [n]"]
      Cons.IH [of "AList.update (s n d) n sm" "List.insert n u" "[n]"]
    show ?thesis by (simp add: Let_def)
  next
    case False
    then have "sample_group s d (x # xs) (sm, u, lg) = sample_group s d xs (sm, u, lg @ [n])"
      and "sample_group s d (x # xs) (sm, u, []) = sample_group s d xs (sm, u, [n])"
      using x by (auto simp: Let_def)
    with Cons.IH [of sm u "lg @ [n]"] Cons.IH [of sm u "[n]"]
    show ?thesis by simp
  qed
qed

lemma sample_group_unique_distinct:
  "distinct u \<Longrightarrow> distinct (fst (snd (sample_group s d xs (sm, u, lg))))"
proof (induction xs arbitrary: sm u lg)
  case Nil
  then show ?case by simp
next
  case (Cons x xs)
  obtain n i where x: "x = (n, i)" by (cases x)
  from Cons.prems have "distinct (List.insert n u)" by simp
  with x Cons.IH [of "List.insert n u"] Cons.IH [of u] Cons.prems show ?case
    by (auto simp: Let_def)
qed

lemma sample_group_unique_subset:
  "set (fst (snd (sample_group s d xs (sm, u, lg)))) \<subseteq> set u \<union> fst ` set xs"
proof (induction xs arbitrary: sm u lg)
  case Nil
  show ?case by simp
next
  case (Cons x xs)
  obtain n i where x: "x = (n, i)" by (cases x)
  show ?case
  proof (cases "s n d > 0 \<and> map_of sm (s n d) = None")
    case True
    with x Cons.IH [of "AList.update (s n d) n sm" "List.insert n u" "lg @ [n]"]
    show ?thesis by (auto simp: Let_def)
  next
    case False
    with x Cons.IH [of sm u "lg @ [n]"]
    show ?thesis by (auto simp: Let_def)
  qed
qed

subsection \<open>The second pass, group by group\<close>

lemma set_descending_chapters: "set (descending_chapters nchap g) = set g"
  by (simp add: descending_chapters_def)

lemma analyze_group_append:
  assumes "fst ` set g \<inter> fst ` set et = {}"
  shows "analyze_group nchap s d g (et, lg) =
           (et @ fst (analyze_group nchap s d g ([], [])),
            lg @ snd (analyze_group nchap s d g ([], [])))"
proof -
  let ?xs = "descending_chapters nchap g"
  obtain sm u l0 where r0: "sample_group s d ?xs ([], [], []) = (sm, u, l0)"
    by (cases "sample_group s d ?xs ([], [], [])") auto
  obtain sm' u' l1 where r1: "sample_group s d ?xs ([], [], lg) = (sm', u', l1)"
    by (cases "sample_group s d ?xs ([], [], lg)") auto
  from sample_group_indep [of s d ?xs "[]" "[]" lg] r0 r1 have same: "sm' = sm" "u' = u" by auto
  from sample_group_sampled [of s d ?xs "[]" "[]" lg] r1 have l1: "l1 = lg @ map fst ?xs" by simp
  from sample_group_sampled [of s d ?xs "[]" "[]" "[]"] r0 have l0: "l0 = map fst ?xs" by simp
  from sample_group_unique_distinct [of "[]" s d ?xs "[]" "[]"] r0 have du: "distinct u" by simp
  from sample_group_unique_subset [of s d ?xs "[]" "[]" "[]"] r0
  have "set u \<subseteq> fst ` set g" by (simp add: set_descending_chapters)
  with assms have "set u \<inter> fst ` set et = {}" by auto
  from fold_add_unique_append [OF du this]
  have "fold (add_unique g) u et = et @ fold (add_unique g) u []" .
  with r0 r1 same l0 l1 show ?thesis by (simp add: analyze_group_def)
qed

lemma classify_group_append:
  assumes "fst ` set g \<inter> fst ` set et = {}"
  shows "classify_group nchap s (d, g) (et, lg) =
           (et @ group_accepted nchap s (d, g), lg @ group_sampled nchap s (d, g))"
proof (cases "2 \<le> length g")
  case True
  with analyze_group_append [OF assms, of nchap s d lg] show ?thesis
    by (simp add: classify_group_def group_accepted_def group_sampled_def)
next
  case False
  show ?thesis
  proof (cases g)
    case Nil
    then show ?thesis by (simp add: classify_group_def group_accepted_def group_sampled_def)
  next
    case (Cons p rest)
    obtain n i where p: "p = (n, i)" by (cases p)
    with Cons assms have "n \<notin> fst ` set et" by auto
    from update_fresh [OF this] Cons p False show ?thesis
      by (simp add: classify_group_def group_accepted_def group_sampled_def)
  qed
qed

lemma group_accepted_subset: "set (group_accepted nchap s (d, g)) \<subseteq> set g"
  using classify_group_subset [of nchap s d g "([], [])"] by (simp add: group_accepted_def)

lemma fold_classify_concat:
  assumes "distinct (map fst (concat (map snd L)))"
    and "fst ` set et \<inter> fst ` set (concat (map snd L)) = {}"
  shows "fold (classify_group nchap s) L (et, lg) =
           (et @ concat (map (group_accepted nchap s) L),
            lg @ concat (map (group_sampled nchap s) L))"
  using assms
proof (induction L arbitrary: et lg)
  case Nil
  show ?case by simp
next
  case (Cons dg L)
  obtain d g where dg: "dg = (d, g)" by (cases dg)
  let ?a = "group_accepted nchap s (d, g)"
  let ?b = "group_sampled nchap s (d, g)"
  define KL where "KL = fst ` set (concat (map snd L))"
  define Kg where "Kg = fst ` set g"
  define Ke where "Ke = fst ` set et"
  define Ka where "Ka = fst ` set ?a"
  have split: "fst ` set (concat (map snd (dg # L))) = Kg \<union> KL"
    by (simp add: dg image_Un Kg_def KL_def)
  from Cons.prems(2) have p2: "Ke \<inter> (Kg \<union> KL) = {}" unfolding split Ke_def .
  then have "fst ` set g \<inter> fst ` set et = {}" unfolding Kg_def Ke_def by blast
  from classify_group_append [OF this]
  have step: "classify_group nchap s (d, g) (et, lg) = (et @ ?a, lg @ ?b)" .
  from Cons.prems(1) dg have d1: "distinct (map fst (concat (map snd L)))" by simp
  from Cons.prems(1) dg have gl: "Kg \<inter> KL = {}"
    by (simp add: Kg_def KL_def)
  have ag: "Ka \<subseteq> Kg" using group_accepted_subset [of nchap s d g] unfolding Ka_def Kg_def by blast
  have "fst ` set (et @ ?a) = Ke \<union> Ka" by (simp add: image_Un Ke_def Ka_def)
  with gl p2 ag have "fst ` set (et @ ?a) \<inter> KL = {}" by blast
  then have d2: "fst ` set (et @ ?a) \<inter> fst ` set (concat (map snd L)) = {}"
    unfolding KL_def .
  from Cons.IH [OF d1 d2, of "lg @ ?b"] step dg show ?case by simp
qed

lemma filter_episodes_run_concat:
  assumes "distinct (map fst titles)"
  shows "filter_episodes_run dur nchap s titles R =
           (concat (map (group_accepted nchap s) (sort_key fst (group_by_duration dur titles R))),
            concat (map (group_sampled nchap s) (sort_key fst (group_by_duration dur titles R))))"
  using fold_classify_concat [OF sorted_groups_distinct_nums [OF assms], of "[]" dur R nchap s "[]"]
  by (simp add: filter_episodes_run_def)

subsection \<open>Which titles are accepted\<close>

lemma filter_episodes_mem:
  assumes "distinct (map fst titles)"
  shows "(n, i) \<in> set (filter_episodes dur nchap s titles R) \<longleftrightarrow>
           is_valid R (dur i) \<and> (n, i) \<in> set titles
           \<and> (n, i) \<in> set (group_accepted nchap s
                 (dur i, filter (\<lambda>(n', i'). is_valid R (dur i') \<and> dur i' = dur i) titles))"
    (is "?lhs \<longleftrightarrow> ?rhs")
proof
  let ?L = "sort_key fst (group_by_duration dur titles R)"
  have fe: "filter_episodes dur nchap s titles R = concat (map (group_accepted nchap s) ?L)"
    by (simp add: filter_episodes_def filter_episodes_run_concat [OF assms])
  {
    assume ?lhs
    with fe obtain d g where dg: "(d, g) \<in> set (group_by_duration dur titles R)"
      and acc: "(n, i) \<in> set (group_accepted nchap s (d, g))" by auto
    from acc group_accepted_subset [of nchap s d g] have ing: "(n, i) \<in> set g" by blast
    from group_by_duration_mem [OF dg ing] have m: "(n, i) \<in> set titles" "dur i = d" "is_valid R d"
      by auto
    from dg have "g = filter (\<lambda>(n', i'). is_valid R (dur i') \<and> dur i' = d) titles"
      using group_by_duration_groups [of d g dur titles R] by blast
    with acc m show ?rhs by auto
  }
  {
    assume r: ?rhs
    let ?g = "filter (\<lambda>(n', i'). is_valid R (dur i') \<and> dur i' = dur i) titles"
    from r have "(n, i) \<in> set ?g" by auto
    then have "0 < length ?g" by (rule length_pos_if_in_set)
    then have "?g \<noteq> []" by blast
    then have "(dur i, ?g) \<in> set (group_by_duration dur titles R)"
      using group_by_duration_groups [of "dur i" ?g dur titles R] by blast
    then have "(dur i, ?g) \<in> set ?L" by simp
    with r fe show ?lhs by auto
  }
qed

lemma filter_key_le1:
  "distinct (map f ys) \<Longrightarrow> length (filter (\<lambda>y. f y = d) ys) \<le> 1"
proof (induction ys)
  case Nil
  show ?case by simp
next
  case (Cons y ys)
  show ?case
  proof (cases "f y = d")
    case True
    with Cons.prems have "d \<notin> f ` set ys" by simp
    then have "\<forall>z \<in> set ys. f z \<noteq> d" by blast
    then have "filter (\<lambda>y. f y = d) ys = []" by (simp add: filter_empty_conv)
    with True show ?thesis by simp
  next
    case False
    with Cons show ?thesis by simp
  qed
qed

lemma group_singleton:
  assumes "distinct (map (\<lambda>(n, i). dur i) (filter (\<lambda>(n, i). is_valid R (dur i)) titles))"
    and "(d, g) \<in> set (group_by_duration dur titles R)"
  shows "\<exists>x. g = [x]"
proof -
  from assms(2) have g: "g \<noteq> []" "g = filter (\<lambda>(n, i). is_valid R (dur i) \<and> dur i = d) titles"
    using group_by_duration_groups [of d g dur titles R] by blast+
  have "filter (\<lambda>(n, i). is_valid R (dur i) \<and> dur i = d) titles =
        filter (\<lambda>y. (\<lambda>(n, i). dur i) y = d) (filter (\<lambda>(n, i). is_valid R (dur i)) titles)"
    by (auto intro: filter_cong)
  with g filter_key_le1 [OF assms(1), of d] have "length g \<le> 1" by simp
  with g(1) show ?thesis by (cases g) auto
qed

lemma group_accepted_single: "group_accepted nchap s (d, [x]) = [x]"
  by (cases x) (simp add: group_accepted_def classify_group_def)

lemma group_sampled_single: "group_sampled nchap s (d, [x]) = []"
  by (cases x) (simp add: group_sampled_def classify_group_def)

lemma group_sampled_eq:
  "group_sampled nchap s (d, g) =
     (if 2 \<le> length g then map fst (descending_chapters nchap g) else [])"
proof (cases "2 \<le> length g")
  case True
  obtain sm u l0 where r0: "sample_group s d (descending_chapters nchap g) ([], [], []) = (sm, u, l0)"
    by (cases "sample_group s d (descending_chapters nchap g) ([], [], [])") auto
  from sample_group_sampled [of s d "descending_chapters nchap g" "[]" "[]" "[]"] r0
  have "l0 = map fst (descending_chapters nchap g)" by simp
  with True r0 show ?thesis
    by (simp add: group_sampled_def classify_group_def analyze_group_def)
next
  case False
  then show ?thesis
    by (cases g) (auto simp: group_sampled_def classify_group_def)
qed


lemma descending_chapters_mset: "mset (descending_chapters nchap g) = mset g"
  by (simp add: descending_chapters_def)


lemma group_sampled_mset_le:
  "mset (group_sampled nchap s (d, g)) \<subseteq># mset (map fst g)"
proof (cases "2 \<le> length g")
  case True
  have "mset (map fst (descending_chapters nchap g)) = mset (map fst g)"
    using descending_chapters_mset [of nchap g] by (metis mset_map)
  with True show ?thesis by (simp add: group_sampled_eq)
next
  case False
  then show ?thesis by (simp add: group_sampled_eq)
qed

lemma sampled_mset_le:
  "mset (concat (map (group_sampled nchap s) L)) \<subseteq># mset (map fst (concat (map snd L)))"
proof (induction L)
  case Nil
  show ?case by simp
next
  case (Cons dg L)
  obtain d g where dg: "dg = (d, g)" by (cases dg)
  from mset_subset_eq_mono_add [OF group_sampled_mset_le [of nchap s d g] Cons.IH] dg
  show ?case by simp
qed

lemma distinct_mset_le:
  assumes "mset xs \<subseteq># mset ys" and "distinct ys"
  shows "distinct xs"
proof -
  have "count (mset xs) a \<le> 1" for a
  proof -
    from assms(1) have "count (mset xs) a \<le> count (mset ys) a" by (rule mset_subset_eq_count)
    also from assms(2) have "\<dots> \<le> 1" by (simp add: distinct_count_atmost_1)
    finally show ?thesis .
  qed
  then have "count (mset xs) a = (if a \<in> set xs then 1 else 0)" for a
    using count_mset_0_iff [of xs a] le_antisym [of "count (mset xs) a" 1]
    by (cases "count (mset xs) a = 0") auto
  then show ?thesis by (simp add: distinct_count_atmost_1)
qed

text \<open>No title is sampled twice in one run, so treating the sampler as a function of the
  title loses nothing.\<close>

lemma samples_taken_distinct:
  assumes "distinct (map fst titles)"
  shows "distinct (samples_taken dur nchap s titles R)"
  using distinct_mset_le [OF sampled_mset_le sorted_groups_distinct_nums [OF assms]]
  by (simp add: samples_taken_def filter_episodes_run_concat [OF assms])

subsection \<open>Catalogs without repeated durations\<close>

lemma all_groups_single:
  assumes "distinct (map (\<lambda>(n, i). dur i) (filter (\<lambda>(n, i). is_valid R (dur i)) titles))"
    and "set L \<subseteq> set (group_by_duration dur titles R)"
  shows "concat (map (group_accepted nchap s) L) = concat (map snd L)
         \<and> concat (map (group_sampled nchap s) L) = []"
  using assms(2)
proof (induction L)
  case Nil
  show ?case by simp
next
  case (Cons dg L)
  obtain d g where dg: "dg = (d, g)" by (cases dg)
  with Cons.prems have "(d, g) \<in> set (group_by_duration dur titles R)" by simp
  from group_singleton [OF assms(1) this] obtain x where "g = [x]" by blast
  with dg Cons show ?case by (simp add: group_accepted_single group_sampled_single)
qed

text \<open>
  Claim C2. When the titles that fall into a band have pairwise distinct durations,
  \<^verbatim>\<open>filter_episodes\<close> accepts exactly these titles, each with its information
  unchanged, and the sampler is never called: every duration group is a single title and
  is added directly. The catalog of the specification's example,
  \<^verbatim>\<open>{1: 660s, 2: 1300s, 3: 630s}\<close> with the band \<^verbatim>\<open>(600, 1440)\<close>, is an instance: all
  three titles are accepted and no sample is taken.
\<close>

theorem filter_episodes_distinct_durations:
  assumes "distinct (map fst titles)"
    and "distinct (map (\<lambda>(n, i). dur i) (filter (\<lambda>(n, i). is_valid episode_ranges (dur i)) titles))"
  shows "mset (filter_episodes dur nchap sample_title titles episode_ranges) =
           mset (filter (\<lambda>(n, i). is_valid episode_ranges (dur i)) titles)
         \<and> samples_taken dur nchap sample_title titles episode_ranges = []"
proof -
  let ?L = "sort_key fst (group_by_duration dur titles episode_ranges)"
  have "set ?L \<subseteq> set (group_by_duration dur titles episode_ranges)" by simp
  from all_groups_single [OF assms(2) this, of nchap sample_title]
  show ?thesis
    by (simp add: filter_episodes_def samples_taken_def filter_episodes_run_concat [OF assms(1)]
        sorted_groups_mset)
qed

theorem filter_episodes_distinct_durations_witness:
  "distinct (map fst distinct_durations_catalog)
   \<and> distinct (map (\<lambda>(n, i). duration i)
        (filter (\<lambda>(n, i). is_valid one_band (duration i)) distinct_durations_catalog))
   \<and> mset (filter_episodes duration chapters (\<lambda>num d. 1) distinct_durations_catalog one_band) =
       mset distinct_durations_catalog
   \<and> samples_taken duration chapters (\<lambda>num d. 1) distinct_durations_catalog one_band = []"
proof -
  have h1: "distinct (map fst distinct_durations_catalog)" by code_simp
  have h2: "distinct (map (\<lambda>(n, i). duration i)
        (filter (\<lambda>(n, i). is_valid one_band (duration i)) distinct_durations_catalog))"
    by code_simp
  have f: "filter (\<lambda>(n, i). is_valid one_band (duration i)) distinct_durations_catalog =
        distinct_durations_catalog" by code_simp
  from filter_episodes_distinct_durations [OF h1 h2, of chapters "\<lambda>num d. 1"] h1 h2 f
  show ?thesis by simp
qed

subsection \<open>A title with fewer chapters and the same sample is rejected\<close>

lemma sample_group_unique_only_if:
  "n \<in> set (fst (snd (sample_group s d xs (sm, u, lg)))) \<Longrightarrow>
     n \<in> set u
     \<or> (\<exists>ys i zs. xs = ys @ (n, i) # zs \<and> 0 < s n d \<and> map_of sm (s n d) = None
            \<and> (\<forall>p \<in> set ys. s (fst p) d \<noteq> s n d))"
proof (induction xs arbitrary: sm u lg)
  case Nil
  then show ?case by simp
next
  case (Cons x xs)
  obtain m j where x: "x = (m, j)" by (cases x)
  show ?case
  proof (cases "0 < s m d \<and> map_of sm (s m d) = None")
    case True
    with Cons.prems x
    have "n \<in> set (fst (snd (sample_group s d xs
              (AList.update (s m d) m sm, List.insert m u, lg @ [m]))))"
      by (simp add: Let_def)
    from Cons.IH [OF this]
    consider "n = m" | "n \<in> set u"
      | ys i zs where "xs = ys @ (n, i) # zs" "0 < s n d"
          "map_of (AList.update (s m d) m sm) (s n d) = None"
          "\<forall>p \<in> set ys. s (fst p) d \<noteq> s n d"
      by auto
    then show ?thesis
    proof cases
      case 1
      with True x have "x # xs = [] @ (n, j) # xs \<and> 0 < s n d \<and> map_of sm (s n d) = None
          \<and> (\<forall>p \<in> set []. s (fst p) d \<noteq> s n d)" by simp
      then show ?thesis by blast
    next
      case 2
      then show ?thesis by simp
    next
      case 3
      from 3(3) have ne: "s m d \<noteq> s n d" and free: "map_of sm (s n d) = None"
        by (auto simp: update_conv' split: if_splits)
      from 3 x ne free
      have "x # xs = (x # ys) @ (n, i) # zs \<and> 0 < s n d \<and> map_of sm (s n d) = None
          \<and> (\<forall>p \<in> set (x # ys). s (fst p) d \<noteq> s n d)" by simp
      then show ?thesis by blast
    qed
  next
    case False
    then have "sample_group s d (x # xs) (sm, u, lg) = sample_group s d xs (sm, u, lg @ [m])"
      using x by (auto simp: Let_def)
    with Cons.prems have "n \<in> set (fst (snd (sample_group s d xs (sm, u, lg @ [m]))))" by simp
    from Cons.IH [OF this]
    consider "n \<in> set u"
      | ys i zs where "xs = ys @ (n, i) # zs" "0 < s n d" "map_of sm (s n d) = None"
          "\<forall>p \<in> set ys. s (fst p) d \<noteq> s n d"
      by auto
    then show ?thesis
    proof cases
      case 1
      then show ?thesis by simp
    next
      case 2
      from False 2(2,3) have ne: "s m d \<noteq> s n d" by auto
      from 2 x ne
      have "x # xs = (x # ys) @ (n, i) # zs \<and> 0 < s n d \<and> map_of sm (s n d) = None
          \<and> (\<forall>p \<in> set (x # ys). s (fst p) d \<noteq> s n d)" by simp
      then show ?thesis by blast
    qed
  qed
qed

lemma add_unique_key: "(n, i) \<in> set (add_unique g k et) \<Longrightarrow> (n, i) \<in> set et \<or> n = k"
proof (cases "find (\<lambda>(title_num, info). title_num = k) g")
  case None
  assume "(n, i) \<in> set (add_unique g k et)"
  with None show ?thesis by (simp add: add_unique_def)
next
  case (Some p)
  assume a: "(n, i) \<in> set (add_unique g k et)"
  obtain tn info where p: "p = (tn, info)" by (cases p)
  with Some a have "(n, i) \<in> set (AList.update k info et)" by (simp add: add_unique_def)
  with update_subset [of k info et] show ?thesis by auto
qed

lemma fold_add_unique_key:
  "(n, i) \<in> set (fold (add_unique g) u et) \<Longrightarrow> (n, i) \<in> set et \<or> n \<in> set u"
proof (induction u arbitrary: et)
  case Nil
  then show ?case by simp
next
  case (Cons k u)
  from Cons.prems have "(n, i) \<in> set (fold (add_unique g) u (add_unique g k et))" by simp
  from Cons.IH [OF this] add_unique_key [of n i g k et] show ?case by auto
qed

lemma group_accepted_only_if:
  assumes len: "2 \<le> length g"
    and acc: "(n, i) \<in> set (group_accepted nchap s (d, g))"
  shows "\<exists>ys i' zs. descending_chapters nchap g = ys @ (n, i') # zs \<and> 0 < s n d
           \<and> (\<forall>p \<in> set ys. s (fst p) d \<noteq> s n d)"
proof -
  let ?xs = "descending_chapters nchap g"
  obtain sm u l0 where r0: "sample_group s d ?xs ([], [], []) = (sm, u, l0)"
    by (cases "sample_group s d ?xs ([], [], [])") auto
  with len acc have "(n, i) \<in> set (fold (add_unique g) u [])"
    by (simp add: group_accepted_def classify_group_def analyze_group_def)
  from fold_add_unique_key [OF this] have "n \<in> set u" by simp
  with r0 have "n \<in> set (fst (snd (sample_group s d ?xs ([], [], []))))" by simp
  from sample_group_unique_only_if [OF this] show ?thesis by auto
qed




text \<open>In a group of two or more titles, a title whose sample could not be made (size 0)
  is never accepted.\<close>

lemma filter_episodes_needs_sample:
  assumes keys: "distinct (map fst titles)"
    and acc: "(n, i) \<in> set (filter_episodes dur nchap s titles R)"
    and other: "(m, j) \<in> set titles" "(m, j) \<noteq> (n, i)" "dur j = dur i"
  shows "0 < s n (dur i)"
proof -
  let ?d = "dur i"
  let ?g = "filter (\<lambda>(n', i'). is_valid R (dur i') \<and> dur i' = ?d) titles"
  from acc have valid: "is_valid R ?d" and t1: "(n, i) \<in> set titles"
    and ga: "(n, i) \<in> set (group_accepted nchap s (?d, ?g))"
    using filter_episodes_mem [OF keys, of n i dur nchap s R] by auto
  from t1 valid have g1: "(n, i) \<in> set ?g" by simp
  from other valid have g2: "(m, j) \<in> set ?g" by simp
  have len: "2 \<le> length ?g"
  proof -
    have "card {(n, i), (m, j)} \<le> card (set ?g)"
      using g1 g2 by (intro card_mono) auto
    also have "\<dots> \<le> length ?g" by (rule card_length)
    finally have "card {(n, i), (m, j)} \<le> length ?g" .
    moreover from other(2) have "card {(n, i), (m, j)} = 2" by auto
    ultimately show ?thesis by simp
  qed
  from group_accepted_only_if [OF len ga] show ?thesis by blast
qed

subsection \<open>Two titles of the same duration\<close>







section \<open>Verification: filtering by runtime\<close>


lemma fold_partition:
  fixes P :: "'k \<times> 'v \<Rightarrow> bool"
  assumes "distinct (map fst xs)"
    and "fst ` set xs \<inter> (fst ` set m \<union> fst ` set nm) = {}"
  shows "fold (\<lambda>(k, v) (m, nm). if P (k, v) then (AList.update k v m, nm)
                                   else (m, AList.update k v nm)) xs (m, nm) =
           (m @ filter P xs, nm @ filter (Not \<circ> P) xs)"
  using assms
proof (induction xs arbitrary: m nm)
  case Nil
  show ?case by simp
next
  case (Cons x xs)
  obtain k v where x: "x = (k, v)" by (cases x)
  from Cons.prems x have fresh: "k \<notin> fst ` set m" "k \<notin> fst ` set nm" by auto
  from Cons.prems x have d: "distinct (map fst xs)" and kx: "k \<notin> fst ` set xs" by auto
  from Cons.prems(2) x have rest: "fst ` set xs \<inter> (fst ` set m \<union> fst ` set nm) = {}" by auto
  show ?case
  proof (cases "P (k, v)")
    case True
    from rest kx have "fst ` set xs \<inter> (fst ` set (m @ [(k, v)]) \<union> fst ` set nm) = {}" by auto
    from Cons.IH [OF d this] True x fresh show ?thesis by (simp add: update_fresh)
  next
    case False
    from rest kx have "fst ` set xs \<inter> (fst ` set m \<union> fst ` set (nm @ [(k, v)])) = {}" by auto
    from Cons.IH [OF d this] False x fresh show ?thesis by (simp add: update_fresh)
  qed
qed

lemma filter_titles_by_duration_partition:
  assumes "distinct (map fst title_info)"
  shows "filter_titles_by_duration title_info min_runtime max_runtime margin_percent =
     (filter (\<lambda>(title_num, info).
                min_runtime * (1 - margin_percent / 100) \<le> title_duration info
                \<and> title_duration info \<le> max_runtime * (1 + margin_percent / 100)) title_info,
      filter (\<lambda>(title_num, info).
                \<not> (min_runtime * (1 - margin_percent / 100) \<le> title_duration info
                    \<and> title_duration info \<le> max_runtime * (1 + margin_percent / 100))) title_info)"
proof -
  let ?P = "\<lambda>(title_num, info).
                min_runtime * (1 - margin_percent / 100) \<le> title_duration info
                \<and> title_duration info \<le> max_runtime * (1 + margin_percent / 100)"
  have step: "(\<lambda>(title_num, info) (matching_titles, non_matching_titles).
                 if min_runtime * (1 - margin_percent / 100) \<le> title_duration info
                    \<and> title_duration info \<le> max_runtime * (1 + margin_percent / 100)
                 then (AList.update title_num info matching_titles, non_matching_titles)
                 else (matching_titles, AList.update title_num info non_matching_titles)) =
        (\<lambda>(k, v) (m, nm). if ?P (k, v) then (AList.update k v m, nm)
                                   else (m, AList.update k v nm))"
    by (intro ext) (simp split: prod.splits)
  have np: "Not \<circ> ?P = (\<lambda>(title_num, info).
                \<not> (min_runtime * (1 - margin_percent / 100) \<le> title_duration info
                    \<and> title_duration info \<le> max_runtime * (1 + margin_percent / 100)))"
    by (intro ext) (simp split: prod.splits)
  from fold_partition [OF assms, of "[]" "[]" ?P]
  show ?thesis
    unfolding filter_titles_by_duration_def Let_def step np [symmetric] by simp
qed


lemma partition_keys_disjoint:
  assumes "distinct (map fst xs)"
  shows "fst ` set (filter P xs) \<inter> fst ` set (filter (\<lambda>x. \<not> P x) xs) = {}"
proof (rule ccontr)
  assume "fst ` set (filter P xs) \<inter> fst ` set (filter (\<lambda>x. \<not> P x) xs) \<noteq> {}"
  then obtain k where k1: "k \<in> fst ` set (filter P xs)"
    and k2: "k \<in> fst ` set (filter (\<lambda>x. \<not> P x) xs)" by blast
  from k1 obtain v where v: "(k, v) \<in> set xs" "P (k, v)" by auto
  from k2 obtain w where w: "(k, w) \<in> set xs" "\<not> P (k, w)" by auto
  from assms v(1) w(1) have "v = w" by (rule eq_key_imp_eq_value)
  with v(2) w(2) show False by simp
qed

lemma partition_mset: "mset (filter P xs @ filter (\<lambda>x. \<not> P x) xs) = mset xs"
  by (induction xs) simp_all

lemma partition_union: "set (filter P xs) \<union> set (filter (\<lambda>x. \<not> P x) xs) = set xs"
  by auto

text \<open>
  Claim C10. For a title mapping (distinct title numbers) and any runtimes and margin,
  \<^verbatim>\<open>filter_titles_by_duration\<close> partitions the input: the matching and the non-matching
  mapping together hold exactly the input items, each once and with its information
  unchanged, no title number occurs in both, and an input title is in the matching
  mapping if and only if
  \<^verbatim>\<open>min_runtime * (1 - margin_percent / 100) <= duration <= max_runtime * (1 + margin_percent / 100)\<close>,
  with the arithmetic and the comparisons of the source.
\<close>

theorem filter_titles_by_duration_partitions:
  assumes "distinct (map fst title_info)"
  shows "set (fst (filter_titles_by_duration title_info min_runtime max_runtime margin_percent))
           \<union> set (snd (filter_titles_by_duration title_info min_runtime max_runtime margin_percent))
           = set title_info
       \<and> fst ` set (fst (filter_titles_by_duration title_info min_runtime max_runtime margin_percent))
           \<inter> fst ` set (snd (filter_titles_by_duration title_info min_runtime max_runtime margin_percent))
           = {}
       \<and> mset (fst (filter_titles_by_duration title_info min_runtime max_runtime margin_percent)
                 @ snd (filter_titles_by_duration title_info min_runtime max_runtime margin_percent))
           = mset title_info
       \<and> (\<forall>n i. (n, i) \<in> set title_info \<longrightarrow>
             ((n, i) \<in> set (fst (filter_titles_by_duration title_info min_runtime max_runtime
                                    margin_percent))
              \<longleftrightarrow> min_runtime * (1 - margin_percent / 100) \<le> title_duration i
                  \<and> title_duration i \<le> max_runtime * (1 + margin_percent / 100)))
       \<and> (\<forall>n i. (n, i) \<in> set title_info \<longrightarrow>
             ((n, i) \<in> set (snd (filter_titles_by_duration title_info min_runtime max_runtime
                                    margin_percent))
              \<longleftrightarrow> \<not> (min_runtime * (1 - margin_percent / 100) \<le> title_duration i
                     \<and> title_duration i \<le> max_runtime * (1 + margin_percent / 100))))"
proof -
  define P where "P = (\<lambda>(title_num :: int, info :: 'a duration_info).
                min_runtime * (1 - margin_percent / 100) \<le> title_duration info
                \<and> title_duration info \<le> max_runtime * (1 + margin_percent / 100))"
  have N: "(\<lambda>(title_num :: int, info :: 'a duration_info).
                \<not> (min_runtime * (1 - margin_percent / 100) \<le> title_duration info
                    \<and> title_duration info \<le> max_runtime * (1 + margin_percent / 100))) = (\<lambda>x. \<not> P x)"
    unfolding P_def by (intro ext) (simp split: prod.splits)
  have r: "filter_titles_by_duration title_info min_runtime max_runtime margin_percent =
      (filter P title_info, filter (\<lambda>x. \<not> P x) title_info)"
    using filter_titles_by_duration_partition [OF assms, of min_runtime max_runtime margin_percent]
    unfolding N unfolding P_def .
  have Pi: "P (n, i) \<longleftrightarrow> min_runtime * (1 - margin_percent / 100) \<le> title_duration i
                  \<and> title_duration i \<le> max_runtime * (1 + margin_percent / 100)" for n i
    by (simp add: P_def)
  have c4: "(n, i) \<in> set (filter P title_info)
      \<longleftrightarrow> min_runtime * (1 - margin_percent / 100) \<le> title_duration i
                  \<and> title_duration i \<le> max_runtime * (1 + margin_percent / 100)"
    if "(n, i) \<in> set title_info" for n i
    using that Pi [of n i] by simp
  have c5: "(n, i) \<in> set (filter (\<lambda>x. \<not> P x) title_info)
      \<longleftrightarrow> \<not> (min_runtime * (1 - margin_percent / 100) \<le> title_duration i
                  \<and> title_duration i \<le> max_runtime * (1 + margin_percent / 100))"
    if "(n, i) \<in> set title_info" for n i
    using that Pi [of n i] by simp
  show ?thesis
    unfolding r fst_conv snd_conv
    using partition_union [of P title_info] partition_keys_disjoint [OF assms, of P]
      partition_mset [of P title_info] c4 c5
    by blast
qed

theorem filter_titles_by_duration_partitions_witness:
  "distinct (map fst two_durations)
   \<and> (1, \<lparr>title_duration = 1500, duration_mins = 25\<rparr>) \<in> set two_durations
   \<and> (1800::rat) * (1 - 20 / 100) \<le> 1500 \<and> (1500::rat) \<le> 3600 * (1 + 20 / 100)
   \<and> (1, \<lparr>title_duration = 1500, duration_mins = 25\<rparr>)
        \<in> set (fst (filter_titles_by_duration two_durations 1800 3600 20))
   \<and> mset (fst (filter_titles_by_duration two_durations 1800 3600 20)
            @ snd (filter_titles_by_duration two_durations 1800 3600 20)) = mset two_durations"
proof -
  have d: "distinct (map fst two_durations)" by (simp add: two_durations_def)
  have i: "(1, \<lparr>title_duration = 1500, duration_mins = 25\<rparr>) \<in> set two_durations"
    by (simp add: two_durations_def)
  have b: "(1800::rat) * (1 - 20 / 100) \<le> 1500 \<and> (1500::rat) \<le> 3600 * (1 + 20 / 100)"
    by simp
  from filter_titles_by_duration_partitions [OF d, of 1800 3600 20] i b d
  show ?thesis by simp
qed

section \<open>Verification: RuntimeRangeResolver\<close>


lemma get_tvdb_episode_info_total:
  "\<exists>r. get_tvdb_episode_info search episodes show_name season_num = Inr r"
  by (auto simp: get_tvdb_episode_info_def split: sum.splits py_exn.splits)

lemma get_tvdb_episode_info_fallback:
  "get_tvdb_episode_info_try search episodes show_name season_num = Inl x \<Longrightarrow>
     get_tvdb_episode_info search episodes show_name season_num = Inr (1800, 3600)"
  by (auto simp: get_tvdb_episode_info_def split: sum.splits py_exn.splits)

lemma get_tvdb_episode_info_no_runtimes:
  "search show_name = Reply (first_show # others) \<Longrightarrow> show_id first_show = Some sid \<Longrightarrow>
   episodes sid = Reply eps \<Longrightarrow> season_runtimes season_num eps = Inr [] \<Longrightarrow>
     get_tvdb_episode_info search episodes show_name season_num = Inr (1800, 3600)"
  by (simp add: get_tvdb_episode_info_def get_tvdb_episode_info_try_def)

lemma get_tvdb_episode_info_request_fails:
  "search show_name = Request_fails \<Longrightarrow>
     get_tvdb_episode_info search episodes show_name season_num = Inr (1800, 3600)"
  by (simp add: get_tvdb_episode_info_def get_tvdb_episode_info_try_def)

lemma get_tvdb_info_request_fails:
  "search show_name = Request_fails \<Longrightarrow>
     get_tvdb_info (Reply (Some token)) search episodes show_name season_num =
       Inl (DVDError ''TVDB API request failed'')"
  by (simp add: get_tvdb_info_def get_tvdb_info_try_def get_tvdb_token_def)

lemma get_tvdb_info_raises:
  "get_tvdb_info_try search episodes show_name season_num = Inl x \<Longrightarrow>
     \<exists>msg. get_tvdb_info login search episodes show_name season_num = Inl (DVDError msg)"
  by (auto simp: get_tvdb_info_def get_tvdb_token_def split: sum.splits py_exn.splits reply.splits option.splits)

lemma get_tvdb_info_no_runtimes:
  "search show_name = Reply (first_show # others) \<Longrightarrow> show_id first_show = Some sid \<Longrightarrow>
   episodes sid season_num = Reply eps \<Longrightarrow> eps \<noteq> [] \<Longrightarrow>
   collect_episodes eps = Inr (episode_numbers, []) \<Longrightarrow>
     \<exists>info. get_tvdb_info (Reply (Some token)) search episodes show_name season_num = Inr info
       \<and> min_length info = 30 \<and> max_length info = 30
       \<and> episode_count info = (if episode_numbers = [] then 0 else Max (set episode_numbers))"
  by (simp add: get_tvdb_info_def get_tvdb_info_try_def get_tvdb_token_def)

text \<open>
  Claim C5, as the code has it. The Blu-ray resolver \<^verbatim>\<open>get_tvdb_episode_info\<close> never
  lets an exception out: whenever the lookup raises (a network error or anything else) or
  finds no runtime for the season, it returns the default window of 1800 to 3600 seconds.
  It returns the two bounds only, without an episode count. The DVD resolver
  \<^verbatim>\<open>get_tvdb_info\<close> absorbs nothing: every exception of the lookup leaves it as a
  \<^verbatim>\<open>DVDError\<close>, and when no runtime is found it uses 30 minutes for both bounds, with
  the episode count taken from the episode numbers (0 when there are none).
\<close>

theorem tvdb_lookup_failure_handling:
  "(\<exists>r. get_tvdb_episode_info search episodes show_name season_num = Inr r)
   \<and> (\<forall>x. get_tvdb_episode_info_try search episodes show_name season_num = Inl x \<longrightarrow>
          get_tvdb_episode_info search episodes show_name season_num = Inr (1800, 3600))
   \<and> (\<forall>first_show others sid eps.
          search show_name = Reply (first_show # others) \<and> show_id first_show = Some sid
          \<and> episodes sid = Reply eps \<and> season_runtimes season_num eps = Inr [] \<longrightarrow>
          get_tvdb_episode_info search episodes show_name season_num = Inr (1800, 3600))
   \<and> (\<forall>x. get_tvdb_info_try dvd_search dvd_episodes show_name season_num = Inl x \<longrightarrow>
          (\<exists>msg. get_tvdb_info login dvd_search dvd_episodes show_name season_num
                   = Inl (DVDError msg)))
   \<and> (\<forall>first_show others sid eps episode_numbers token.
          dvd_search show_name = Reply (first_show # others) \<and> show_id first_show = Some sid
          \<and> dvd_episodes sid season_num = Reply eps \<and> eps \<noteq> []
          \<and> collect_episodes eps = Inr (episode_numbers, []) \<longrightarrow>
          (\<exists>info. get_tvdb_info (Reply (Some token)) dvd_search dvd_episodes show_name season_num
                    = Inr info
             \<and> min_length info = 30 \<and> max_length info = 30
             \<and> episode_count info
                 = (if episode_numbers = [] then 0 else Max (set episode_numbers))))"
  using get_tvdb_episode_info_total [of search episodes show_name season_num]
    get_tvdb_episode_info_fallback [of search episodes show_name season_num]
    get_tvdb_episode_info_no_runtimes [of search show_name _ _ _ episodes _ season_num]
    get_tvdb_info_raises [of dvd_search dvd_episodes show_name season_num _ login]
    get_tvdb_info_no_runtimes [of dvd_search show_name _ _ _ dvd_episodes season_num]
  by blast

theorem tvdb_lookup_failure_handling_witness:
  "get_tvdb_episode_info_try unreachable (\<lambda>sid. Request_fails) ''Show'' 1 = Inl RequestException
   \<and> get_tvdb_episode_info unreachable (\<lambda>sid. Request_fails) ''Show'' 1 = Inr (1800, 3600)
   \<and> season_runtimes 1 episodes_without_runtime = Inr []
   \<and> get_tvdb_episode_info one_show (\<lambda>sid. Reply episodes_without_runtime) ''Show'' 1
       = Inr (1800, 3600)"
proof -
  have h1: "get_tvdb_episode_info_try unreachable (\<lambda>sid. Request_fails) ''Show'' 1
      = Inl RequestException"
    by (simp add: get_tvdb_episode_info_try_def unreachable_def)
  have h2: "one_show ''Show'' = Reply [\<lparr>show_id = Some ''series-101'', show_title = Some ''Show''\<rparr>]"
    by (simp add: one_show_def)
  have h3: "season_runtimes 1 episodes_without_runtime = Inr []"
    by (simp add: episodes_without_runtime_def)
  from tvdb_lookup_failure_handling
         [of unreachable "\<lambda>sid. Request_fails" "''Show''" 1] h1
  have a: "get_tvdb_episode_info unreachable (\<lambda>sid. Request_fails) ''Show'' 1 = Inr (1800, 3600)"
    by blast
  from tvdb_lookup_failure_handling
         [of one_show "\<lambda>sid. Reply episodes_without_runtime" "''Show''" 1] h2 h3
  have b: "get_tvdb_episode_info one_show (\<lambda>sid. Reply episodes_without_runtime) ''Show'' 1
      = Inr (1800, 3600)"
    by simp
  from h1 h3 a b show ?thesis by simp
qed

text \<open>The claim as stated fails on the DVD resolver: with the service unreachable it
  raises instead of returning the default window.\<close>

theorem get_tvdb_info_propagates:
  "get_tvdb_info (Reply (Some ''token'')) unreachable (\<lambda>sid season. Request_fails) ''Show'' 1
     = Inl (DVDError ''TVDB API request failed'')"
  by (simp add: get_tvdb_info_def get_tvdb_info_try_def get_tvdb_token_def unreachable_def)

section \<open>Verification: TitleCatalog\<close>

lemma parse_titles_minimum:
  "parse_titles gigabytes output = Inr titles \<Longrightarrow> (k, v) \<in> set titles \<Longrightarrow> 120 \<le> duration v"
  by (auto simp: parse_titles_def split: sum.splits)

lemma quarter_minute: "(1 / 4 \<le> (of_int d :: rat) / 60) \<longleftrightarrow> 15 \<le> d"
proof -
  have "(1 / 4 \<le> (of_int d :: rat) / 60) \<longleftrightarrow> (15 :: rat) \<le> of_int d" by (simp add: field_simps)
  also have "\<dots> \<longleftrightarrow> 15 \<le> d" by linarith
  finally show ?thesis .
qed

lemma scan_disc_filter_fold:
  assumes "(k, v) \<in> set (fold (\<lambda>(num, info) filtered_titles.
             let duration_min = (of_int (dvd_duration info) :: rat) / 60;
                 valid_chapters = filter (\<lambda>c. snd c > 15) (dvd_chapters info)
             in if duration_min \<ge> 1 / 4 \<and> valid_chapters \<noteq> []
                then AList.update num (info\<lparr>dvd_chapters := valid_chapters\<rparr>) filtered_titles
                else filtered_titles) titles acc)"
  shows "(k, v) \<in> set acc
         \<or> (15 \<le> dvd_duration v \<and> dvd_chapters v \<noteq> [] \<and> (\<forall>c \<in> set (dvd_chapters v). 15 < snd c))"
  using assms
proof (induction titles arbitrary: acc)
  case Nil
  then show ?case by simp
next
  case (Cons t titles)
  obtain num info where t: "t = (num, info)" by (cases t)
  let ?vc = "filter (\<lambda>c. snd c > 15) (dvd_chapters info)"
  show ?case
  proof (cases "15 \<le> dvd_duration info \<and> ?vc \<noteq> []")
    case True
    with Cons.prems t
    have "(k, v) \<in> set (AList.update num (info\<lparr>dvd_chapters := ?vc\<rparr>) acc)
       \<or> (15 \<le> dvd_duration v \<and> dvd_chapters v \<noteq> [] \<and> (\<forall>c \<in> set (dvd_chapters v). 15 < snd c))"
      using Cons.IH [of "AList.update num (info\<lparr>dvd_chapters := ?vc\<rparr>) acc"]
      by (simp add: Let_def quarter_minute)
    then show ?thesis
    proof
      assume "(k, v) \<in> set (AList.update num (info\<lparr>dvd_chapters := ?vc\<rparr>) acc)"
      with update_subset [of num "info\<lparr>dvd_chapters := ?vc\<rparr>" acc]
      have "(k, v) = (num, info\<lparr>dvd_chapters := ?vc\<rparr>) \<or> (k, v) \<in> set acc" by blast
      with True show ?thesis by auto
    qed simp
  next
    case False
    with Cons.prems t Cons.IH [of acc] show ?thesis
      by (simp add: Let_def quarter_minute)
  qed
qed

lemma scan_disc_filter_minimum:
  "(k, v) \<in> set (scan_disc_filter titles) \<Longrightarrow>
     15 \<le> dvd_duration v \<and> dvd_chapters v \<noteq> [] \<and> (\<forall>c \<in> set (dvd_chapters v). 15 < snd c)"
  unfolding scan_disc_filter_def by (drule scan_disc_filter_fold) simp

lemma scan_attempts_minimum:
  "scan_attempts runs titles = Inr found \<Longrightarrow> (k, v) \<in> set found \<Longrightarrow>
     15 \<le> dvd_duration v \<and> dvd_chapters v \<noteq> [] \<and> (\<forall>c \<in> set (dvd_chapters v). 15 < snd c)"
proof (induction runs titles rule: scan_attempts.induct)
  case (1 titles)
  then show ?case by simp
next
  case (2 later titles)
  then show ?case by (simp split: if_splits)
next
  case (3 later titles)
  then show ?case by (simp split: if_splits)
next
  case (4 scan_output later titles)
  let ?st = "fold scan_line (splitlines scan_output)
                 \<lparr>titles_found = titles, current_title = None, current_section = None\<rparr>"
  show ?case
  proof (cases "scan_disc_filter (titles_found ?st) \<noteq> []")
    case True
    with "4.prems" have "found = scan_disc_filter (titles_found ?st)" by (simp add: Let_def)
    with "4.prems"(2) scan_disc_filter_minimum show ?thesis by blast
  next
    case False
    show ?thesis
    proof (cases "later = []")
      case True
      with False "4.prems" show ?thesis by (simp add: Let_def)
    next
      case nonempty: False
      with False "4.prems" have "scan_attempts later (titles_found ?st) = Inr found"
        by (simp add: Let_def)
      from "4.IH" [OF refl refl _ nonempty this "4.prems"(2)] False show ?thesis by simp
    qed
  qed
qed


text \<open>
  Claim C6, as the code has it. Every title returned by the Blu-ray catalog parser
  \<^verbatim>\<open>parse_titles\<close> lasts at least 120 seconds, a fixed threshold. The DVD scanner
  \<^verbatim>\<open>scan_disc\<close> has another fixed threshold: every title it returns lasts at least 15
  seconds and has at least one chapter, all of its chapters being longer than 15 seconds.
\<close>

theorem catalog_minimum_duration:
  "(parse_titles gigabytes output = Inr titles \<longrightarrow> (\<forall>(k, v) \<in> set titles. 120 \<le> duration v))
   \<and> (scan_disc runs = Inr dvd_titles \<longrightarrow>
        (\<forall>(k, v) \<in> set dvd_titles.
           15 \<le> dvd_duration v \<and> dvd_chapters v \<noteq> []
           \<and> (\<forall>c \<in> set (dvd_chapters v). 15 < snd c)))"
  using parse_titles_minimum [of gigabytes "output" titles]
    scan_attempts_minimum [of runs "[]" dvd_titles]
  unfolding scan_disc_def by blast

theorem catalog_minimum_duration_witness:
  "parse_titles no_sizes robot_two_titles =
     Inr [(0, \<lparr>number = 0, duration = 1320, size_bytes = 0, chapters = 6,
                name = ''Episode'', filename = []\<rparr>)]
   \<and> 120 \<le> duration \<lparr>number = 0, duration = 1320, size_bytes = 0, chapters = 6,
                       name = ''Episode'', filename = []\<rparr>"
proof -
  have h: "parse_titles no_sizes robot_two_titles =
     Inr [(0, \<lparr>number = 0, duration = 1320, size_bytes = 0, chapters = 6,
                name = ''Episode'', filename = []\<rparr>)]"
    by code_simp
  from catalog_minimum_duration [of no_sizes robot_two_titles _ "[]" "[]"] h
  show ?thesis by simp
qed

text \<open>The claim as stated fails on the DVD scanner: a title of one minute is returned.\<close>

theorem scan_disc_keeps_short_title:
  "scan_disc [Output handbrake_short_title] =
     Inr [(1, \<lparr>dvd_duration = 60, dvd_chapters = [(1, 60)], audio = [], subtitles = []\<rparr>)]"
  by code_simp

lemma parse_titles_empty_output: "parse_titles gigabytes [] = Inr []"
  by (simp add: parse_titles_def splitlines_def)

lemma main_scan_refuses_empty:
  "parse_titles gigabytes output = Inr [] \<Longrightarrow>
     main_scan gigabytes 0 output = Inl (BluRayError ''No valid titles found on disc'')"
  by (simp add: main_scan_def)

lemma main_scan_nonempty: "main_scan gigabytes returncode output = Inr titles \<Longrightarrow> titles \<noteq> []"
  by (auto simp: main_scan_def split: if_splits sum.splits)

text \<open>
  Claim C7, as the code has it. For an empty engine output, and whenever no title is left
  after the filter, \<^verbatim>\<open>parse_titles\<close> returns the empty mapping without raising. The
  failure is raised by its caller: the scan step of \<^verbatim>\<open>main\<close> raises
  \<^verbatim>\<open>BluRayError\<close> when the mapping is empty, so it never goes on with an empty catalog.
\<close>

theorem empty_catalog_is_refused_by_main:
  "parse_titles gigabytes [] = Inr []
   \<and> (parse_titles gigabytes output = Inr [] \<longrightarrow>
        main_scan gigabytes 0 output = Inl (BluRayError ''No valid titles found on disc''))
   \<and> (main_scan gigabytes returncode output = Inr titles \<longrightarrow> titles \<noteq> [])"
  using parse_titles_empty_output [of gigabytes] main_scan_refuses_empty [of gigabytes "output"]
    main_scan_nonempty [of gigabytes returncode "output" titles]
  by blast

theorem empty_catalog_is_refused_by_main_witness:
  "parse_titles no_sizes robot_short_title = Inr []
   \<and> main_scan no_sizes 0 robot_short_title = Inl (BluRayError ''No valid titles found on disc'')"
proof -
  have h: "parse_titles no_sizes robot_short_title = Inr []" by code_simp
  from empty_catalog_is_refused_by_main [of no_sizes robot_short_title 0 "[]"] h
  show ?thesis by simp
qed

text \<open>The claim as stated fails on \<^verbatim>\<open>parse_titles\<close>: for the empty output and for a disc
  whose only title lasts one minute it returns the empty mapping and no error.\<close>

theorem parse_titles_returns_empty_mapping:
  "parse_titles no_sizes [] = Inr [] \<and> parse_titles no_sizes robot_short_title = Inr []"
  by code_simp
section \<open>Verification: RipOrchestrator\<close>

lemma attempt_result_True:
  "attempt_result a is_last = Inr finished \<Longrightarrow> finished"
  by (induction a is_last rule: attempt_result.induct) (auto split: if_splits option.splits)

lemma attempt_result_success:
  "attempt_result a is_last = Inr True \<Longrightarrow>
     \<exists>file_size. final_exit a = Exited 0 (Some file_size) \<and> file_size > 1000000"
  by (induction a is_last rule: attempt_result.induct) (auto split: if_splits option.splits)

lemma rip_attempts_success:
  "rip_attempts attempts = Inr True \<Longrightarrow>
     \<exists>a \<in> set attempts. \<exists>file_size. final_exit a = Exited 0 (Some file_size) \<and> file_size > 1000000"
proof (induction attempts)
  case Nil
  then show ?case by simp
next
  case (Cons a later)
  show ?case
  proof (cases "attempt_result a (later = [])")
    case (Inr d)
    with Cons.prems have "attempt_result a (later = []) = Inr True" by simp
    from attempt_result_success [OF this] show ?thesis by auto
  next
    case (Inl e)
    with Cons.prems have "rip_attempts later = Inr True"
      by (cases e) (auto split: if_splits)
    from Cons.IH [OF this] show ?thesis by auto
  qed
qed

text \<open>The DVD ripper reports a rip as done only after an attempt in which the encoder
  exited with code 0 and left an output file of more than 1000000 bytes.\<close>

lemma rip_title_success:
  "rip_title first second third = Inr True \<Longrightarrow>
     \<exists>a \<in> {first, second, third}. \<exists>file_size.
        final_exit a = Exited 0 (Some file_size) \<and> file_size > 1000000"
  unfolding rip_title_def by (drule rip_attempts_success) simp

text \<open>
  Claim C9. A rip must be reported as done only when the output file exists and is
  larger than the minimum size. The Blu-ray ripper does not check this: MakeMKV has
  exited with return code 1 and left an empty file, and \<^verbatim>\<open>process_tv_show\<close> reports the
  episode as successfully ripped, although \<^verbatim>\<open>verify_ripped_file\<close> rejects such a file
  even when ffmpeg reads it without error.
\<close>

theorem rip_episode_reports_unverified_success:
  "rip_episode True 1 failed_rip_directory 1000 True = Successfully_ripped
   \<and> \<not> verify_ripped_file (Some 0) 0"
  by code_simp

end
